theory Spec2Isabelle
  imports Main "HOL-Library.AList" "HOL-Library.Sublist" "HOL-Library.Multiset"
begin

section \<open>Data model\<close>

text \<open>
  Instants and durations are integers counting nanoseconds, the resolution of
  \<^verbatim>\<open>pd.Timestamp\<close> and \<^verbatim>\<open>pd.Timedelta\<close>. An instant is the number of nanoseconds since the
  Unix epoch, in UTC: \<^verbatim>\<open>get_frequency\<close> localises its date and time strings and converts them
  to UTC before the loop starts, and the model starts from the two converted instants.
\<close>

datatype error = KeyError | QueryFailure

text \<open>
  One row returned by \<^verbatim>\<open>results.get_points()\<close>: a dictionary with the key \<^verbatim>\<open>time\<close> and one
  key for every tag and field column of the result. \<open>time\<close> is the parsed value of the
  \<^verbatim>\<open>time\<close> key; \<open>field_values\<close> holds the other keys: \<open>None\<close> for a key the dictionary
  does not have, \<open>Some None\<close> for a key whose value is null, \<open>Some (Some v)\<close> for a value.
\<close>

record 'v sample =
  time :: int
  field_values :: "string \<rightharpoonup> 'v option"

type_synonym 'v batch = "'v sample list"

type_synonym window = "int \<times> int"

text \<open>
  The client, for one measurement, one vehicle and one row limit: the answer to the
  query of ramana.py lines 20-25 for the window \<open>[current_time, next_time)\<close>, as the list of
  rows that line 35 puts into a DataFrame, or the exception that \<^verbatim>\<open>client.query\<close> raises.
\<close>

type_synonym 'v client = "window \<Rightarrow> error + 'v batch"

section \<open>Gap detection (ramana.py lines 37-46)\<close>

text \<open>\<^verbatim>\<open>pd.Timedelta(minutes=30)\<close> and the literal 4 of lines 43 and 46.\<close>

definition window_size :: int where
  "window_size = 30 * 60 * 1000000000"

definition gap_threshold :: int where
  "gap_threshold = 4"

text \<open>Line 39: \<^verbatim>\<open>pd.to_datetime(...).astype(int) // 10**9\<close>, whole seconds since the epoch.\<close>

definition epoch :: "'v sample \<Rightarrow> int" where
  "epoch r = time r div 1000000000"

text \<open>
  Line 40: \<^verbatim>\<open>data['epoch'].diff()\<close>. The first entry of the column is NaN, which no
  comparison selects; \<open>diffs\<close> lists the other entries, one for each pair of successive rows.
\<close>

fun diffs :: "int list \<Rightarrow> int list" where
  "diffs (a # b # xs) = (b - a) # diffs (b # xs)"
| "diffs xs = []"

text \<open>Line 43: the rows whose \<^verbatim>\<open>time_diff\<close> is greater than the threshold.\<close>

definition gaps :: "int \<Rightarrow> 'v batch \<Rightarrow> int list" where
  "gaps thr data = filter (\<lambda>d. thr < d) (diffs (map epoch data))"

text \<open>
  Lines 45-46: \<^verbatim>\<open>gaps['time_diff'].sum() - 4 * len(gaps)\<close> seconds are added to the running
  total when there is at least one gap.
\<close>

definition gap_seconds :: "int \<Rightarrow> 'v batch \<Rightarrow> int" where
  "gap_seconds thr data = sum_list (gaps thr data) - thr * int (length (gaps thr data))"

definition detect :: "int \<Rightarrow> 'v batch \<Rightarrow> int \<Rightarrow> int" where
  "detect thr data total_gap_duration =
     (if gaps thr data \<noteq> [] then total_gap_duration + gap_seconds thr data * 1000000000
      else total_gap_duration)"

section \<open>The window loop (ramana.py lines 17-50)\<close>

text \<open>
  The state of the loop is \<open>current_time\<close>, \<open>total_gap_duration\<close> and \<open>all_data\<close>; the model
  also records, in \<open>issued\<close>, the window of every query sent to the client. The window size
  and the threshold are the parameters \<open>w\<close> and \<open>thr\<close>; \<open>get_frequency\<close> below passes the
  source's constants. An exception of \<^verbatim>\<open>client.query\<close> is not caught and leaves the function.
  \<open>None\<close> is a loop that never ends.
\<close>

partial_function (option) window_loop ::
  "'v client \<Rightarrow> int \<Rightarrow> int \<Rightarrow> int \<Rightarrow> int \<Rightarrow> int \<Rightarrow> 'v batch list \<Rightarrow> window list
     \<Rightarrow> (error + int \<times> 'v batch list \<times> window list) option" where
  "window_loop client w thr final_end_time current_time total_gap_duration all_data issued =
     (if current_time < final_end_time then
        (let next_time = current_time + w in
         case client (current_time, next_time) of
           Inl e \<Rightarrow> Some (Inl e)
         | Inr data \<Rightarrow>
             if data \<noteq> [] then
               window_loop client w thr final_end_time next_time
                 (detect thr data total_gap_duration) (all_data @ [data])
                 (issued @ [(current_time, next_time)])
             else
               window_loop client w thr final_end_time next_time
                 total_gap_duration all_data (issued @ [(current_time, next_time)]))
      else Some (Inr (total_gap_duration, all_data, issued)))"

section \<open>Frequency counting (ramana.py lines 6 and 56-63)\<close>

text \<open>
  The channel map \<^verbatim>\<open>can_id_fields\<close> and the result \<^verbatim>\<open>frequency_dict\<close> are dictionaries,
  written as the lists of their items in insertion order.
\<close>

type_synonym channel_map = "(string \<times> string list) list"

type_synonym frequency_table = "(string \<times> (string \<times> nat) list) list"

text \<open>Line 6: every field of every channel starts at 0.\<close>

definition frequency_dict :: "channel_map \<Rightarrow> frequency_table" where
  "frequency_dict can_id_fields =
     map (\<lambda>(can_id, flds). (can_id, map (\<lambda>field. (field, 0)) flds)) can_id_fields"

text \<open>
  Line 63: \<^verbatim>\<open>concatenated_data[field].count()\<close>, the number of non-null entries of a column
  of the concatenation of the batches. Every batch in \<open>all_data\<close> is non-empty and has, beside
  the keys of its rows, the columns \<^verbatim>\<open>epoch\<close> (never null) and \<^verbatim>\<open>time_diff\<close> (null in the first
  row of each batch only) that lines 39 and 40 add. A column that no row has raises KeyError.
\<close>

definition non_null :: "string \<Rightarrow> 'v sample \<Rightarrow> bool" where
  "non_null field r = (case field_values r field of Some (Some v) \<Rightarrow> True | _ \<Rightarrow> False)"

definition column_count :: "'v batch list \<Rightarrow> string \<Rightarrow> error + nat" where
  "column_count all_data field =
     (let rows = concat all_data in
      if field = ''time'' \<or> field = ''epoch'' then Inr (length rows)
      else if field = ''time_diff'' then Inr (length rows - length all_data)
      else if \<exists>r \<in> set rows. field_values r field \<noteq> None then
        Inr (length (filter (non_null field) rows))
      else Inl KeyError)"

text \<open>Lines 61-63: the two nested loops; the first KeyError ends them.\<close>

fun count_fields :: "'v batch list \<Rightarrow> string list \<Rightarrow> error + (string \<times> nat) list" where
  "count_fields all_data [] = Inr []"
| "count_fields all_data (field # flds) =
     (case column_count all_data field of
        Inl e \<Rightarrow> Inl e
      | Inr n \<Rightarrow>
          (case count_fields all_data flds of
             Inl e \<Rightarrow> Inl e
           | Inr counts \<Rightarrow> Inr ((field, n) # counts)))"

fun count_channels :: "'v batch list \<Rightarrow> channel_map \<Rightarrow> error + frequency_table" where
  "count_channels all_data [] = Inr []"
| "count_channels all_data ((can_id, flds) # rest) =
     (case count_fields all_data flds of
        Inl e \<Rightarrow> Inl e
      | Inr counts \<Rightarrow>
          (case count_channels all_data rest of
             Inl e \<Rightarrow> Inl e
           | Inr table \<Rightarrow> Inr ((can_id, counts) # table)))"

section \<open>get_frequency (ramana.py lines 5-65)\<close>

definition get_frequency ::
  "'v client \<Rightarrow> int \<Rightarrow> int \<Rightarrow> channel_map \<Rightarrow> (error + frequency_table \<times> int) option" where
  "get_frequency client start final_end_time can_id_fields =
     (case window_loop client window_size gap_threshold final_end_time start 0 [] [] of
        None \<Rightarrow> None
      | Some (Inl e) \<Rightarrow> Some (Inl e)
      | Some (Inr (total_gap_duration, all_data, issued)) \<Rightarrow>
          (let effective_time = (final_end_time - start) - total_gap_duration in
           if all_data \<noteq> [] then
             (case count_channels all_data can_id_fields of
                Inl e \<Rightarrow> Some (Inl e)
              | Inr table \<Rightarrow> Some (Inr (table, effective_time)))
           else Some (Inr (frequency_dict can_id_fields, effective_time))))"

section \<open>The store-side aggregate mode (1.0.7.py lines 72-97 and 146-158)\<close>

text \<open>
  A value of a point of an aggregate result, and a point: the dictionary that
  \<^verbatim>\<open>result.get_points()\<close> yields, as the list of its items in order.
\<close>

datatype influx_value = IntV int | TimeV int | NullV

type_synonym point = "(string \<times> influx_value) list"

text \<open>
  A COUNT query: the measurement, the field and the range \<open>[start_dt, end_dt)\<close> that lines
  76-82 put into the query string, for one vehicle.
\<close>

type_synonym count_query = "string \<times> string \<times> int \<times> int"

text \<open>
  The client of \<^verbatim>\<open>get_count_for_field\<close>. The store is a service, and its answer to a query
  may depend on the queries it has received before: \<open>client history query\<close> is the list of
  points that \<^verbatim>\<open>client.query\<close> returns for \<open>query\<close> after the queries of \<open>history\<close>, or the
  exception it raises. Every call of \<^verbatim>\<open>client.query\<close> adds its query to the history.
\<close>

type_synonym count_client = "count_query list \<Rightarrow> count_query \<Rightarrow> error + point list"

text \<open>The messages handed to \<^verbatim>\<open>output_func\<close>, with the values they interpolate.\<close>

datatype log_msg =
    Executing string string int int
  | ErrorExecuting string string error
  | CountFor string string influx_value
  | Processing string
  | NoFieldsFound

text \<open>
  Lines 72-97. The result is the value returned, the messages written and the history of the
  client after the call. \<^verbatim>\<open>client.query\<close> is called once, inside the \<^verbatim>\<open>try\<close>. The first key of
  the first point that starts with \<^verbatim>\<open>count\<close> gives the value; a failed query is reported
  and answered with 0.
\<close>

definition get_count_for_field ::
  "count_client \<Rightarrow> count_query list \<Rightarrow> string \<Rightarrow> string \<Rightarrow> int \<Rightarrow> int
     \<Rightarrow> influx_value \<times> log_msg list \<times> count_query list" where
  "get_count_for_field client history measurement field start_dt end_dt =
     (let query = (measurement, field, start_dt, end_dt) in
      case client history query of
        Inl e \<Rightarrow>
          (IntV 0,
           [Executing measurement field start_dt end_dt, ErrorExecuting measurement field e],
           history @ [query])
      | Inr points \<Rightarrow>
          (case points of
             [] \<Rightarrow> (IntV 0, [Executing measurement field start_dt end_dt], history @ [query])
           | p # rest \<Rightarrow>
               (case find (\<lambda>(key, count_val). prefix ''count'' key) p of
                  Some (key, count_val) \<Rightarrow>
                    (count_val,
                     [Executing measurement field start_dt end_dt,
                      CountFor measurement field count_val],
                     history @ [query])
                | None \<Rightarrow>
                    (IntV 0, [Executing measurement field start_dt end_dt], history @ [query]))))"

text \<open>
  Lines 146-158 of \<^verbatim>\<open>run_queries\<close>: the loop that fills \<^verbatim>\<open>results_list\<close>, over the items of
  \<^verbatim>\<open>measurements_fields\<close>. The result is \<^verbatim>\<open>results_list\<close>, the messages written and the
  history of the client after the loop.
\<close>

fun count_all_fields ::
  "count_client \<Rightarrow> count_query list \<Rightarrow> string \<Rightarrow> int \<Rightarrow> int \<Rightarrow> string list
     \<Rightarrow> (string \<times> influx_value) list \<times> log_msg list \<times> count_query list" where
  "count_all_fields client history measurement start_dt end_dt [] = ([], [], history)"
| "count_all_fields client history measurement start_dt end_dt (field # flds) =
     (let (count_value, log1, history1) =
            get_count_for_field client history measurement field start_dt end_dt;
          (results_list, log2, history2) =
            count_all_fields client history1 measurement start_dt end_dt flds
      in ((measurement @ ''.count_'' @ field, count_value) # results_list, log1 @ log2, history2))"

fun run_queries ::
  "count_client \<Rightarrow> count_query list \<Rightarrow> int \<Rightarrow> int \<Rightarrow> (string \<times> string list) list
     \<Rightarrow> (string \<times> influx_value) list \<times> log_msg list \<times> count_query list" where
  "run_queries client history start_dt end_dt [] = ([], [], history)"
| "run_queries client history start_dt end_dt ((measurement, flds) # rest) =
     (if flds = [] then
        (let (results_list, log2, history2) = run_queries client history start_dt end_dt rest
         in (results_list, [Processing measurement, NoFieldsFound] @ log2, history2))
      else
        (let (results1, log1, history1) =
               count_all_fields client history measurement start_dt end_dt flds;
             (results2, log2, history2) = run_queries client history1 start_dt end_dt rest
         in (results1 @ results2, [Processing measurement] @ log1 @ log2, history2)))"

text \<open>The queries that the loop of \<^verbatim>\<open>run_queries\<close> sends for a channel map, in order.\<close>

definition queries_of :: "int \<Rightarrow> int \<Rightarrow> (string \<times> string list) list \<Rightarrow> count_query list" where
  "queries_of start_dt end_dt measurements_fields =
     concat (map (\<lambda>(measurement, flds). map (\<lambda>field. (measurement, field, start_dt, end_dt)) flds)
               measurements_fields)"

text \<open>
  The row that lines 153-157 append for a query sent after the queries of \<open>history\<close>: the
  combined key and the value that \<^verbatim>\<open>get_count_for_field\<close> returns.
\<close>

definition result_row :: "count_client \<Rightarrow> count_query list \<Rightarrow> count_query \<Rightarrow> string \<times> influx_value" where
  "result_row client history query =
     (case query of (measurement, field, start_dt, end_dt) \<Rightarrow>
        (measurement @ ''.count_'' @ field,
         fst (get_count_for_field client history measurement field start_dt end_dt)))"

section \<open>The channel map loader (1.0.7.py lines 15-50)\<close>

text \<open>
  A line of the file is a list of characters, each a code point below 256.
  \<^verbatim>\<open>str.isspace\<close> for one such character: the ASCII whitespace and separator characters,
  NEXT LINE (0x85) and NO-BREAK SPACE (0xA0).
\<close>

definition isspace :: "char \<Rightarrow> bool" where
  "isspace c = (c \<in> set [CHR 0x09, CHR 0x0A, CHR 0x0B, CHR 0x0C, CHR 0x0D,
                           CHR 0x1C, CHR 0x1D, CHR 0x1E, CHR 0x1F, CHR 0x20,
                           CHR 0x85, CHR 0xA0])"

text \<open>\<^verbatim>\<open>str.strip()\<close>: leading and trailing whitespace removed.\<close>

definition strip :: "string \<Rightarrow> string" where
  "strip s = rev (dropWhile isspace (rev (dropWhile isspace s)))"

text \<open>\<^verbatim>\<open>str.split(sep)\<close> for a separator of one character.\<close>

fun str_split :: "char \<Rightarrow> string \<Rightarrow> string list" where
  "str_split sep [] = [[]]"
| "str_split sep (c # cs) =
     (if c = sep then [] # str_split sep cs
      else (case str_split sep cs of
              p # ps \<Rightarrow> (c # p) # ps
            | [] \<Rightarrow> [[c]]))"

text \<open>
  The body of the loop over the lines of the file (lines 30-46). The state is the dictionary
  \<^verbatim>\<open>measurements_fields\<close>, as the list of its items in insertion order, and
  \<^verbatim>\<open>current_measurement\<close>. A line that is not blank has a first character, and the measurement
  of an indented line is a key of the dictionary, so that neither read can fail.
\<close>

definition load_line ::
  "(string \<times> string list) list \<times> string option \<Rightarrow> string
     \<Rightarrow> (string \<times> string list) list \<times> string option" where
  "load_line st line =
     (let (measurements_fields, current_measurement) = st;
          stripped_line = strip line
      in if stripped_line = [] then (measurements_fields, None)
         else if isspace (hd line) \<and> current_measurement \<noteq> None \<and> current_measurement \<noteq> Some []
         then (AList.map_entry (the current_measurement) (\<lambda>flds. flds @ [stripped_line])
                 measurements_fields, current_measurement)
         else
           (let parts = str_split CHR 0x09 stripped_line
            in if 2 \<le> length parts
               then (AList.update (parts ! 0) [parts ! 1] measurements_fields, Some (parts ! 0))
               else (AList.update (parts ! 0) [] measurements_fields, Some (parts ! 0))))"

definition load_measurements_fields :: "string list \<Rightarrow> (string \<times> string list) list" where
  "load_measurements_fields file_lines = fst (foldl load_line ([], None) file_lines)"

section \<open>The store\<close>

text \<open>
  The contents of the store for one measurement and one vehicle are a list of rows;
  \<open>in_window\<close> keeps the rows of the half-open range \<open>[fst win, snd win)\<close>, the time
  filter of both queries.
\<close>

definition in_window :: "'v batch \<Rightarrow> window \<Rightarrow> 'v batch" where
  "in_window rows win = filter (\<lambda>r. fst win \<le> time r \<and> time r < snd win) rows"

text \<open>
  Modelled from the spec: the time-series store is a service outside the repository, and
  section 6 (c) gives its row query: the rows of the time range, in ascending order of time,
  cut at the row limit.
\<close>

definition influx_select :: "'v batch \<Rightarrow> nat \<Rightarrow> 'v client" where
  "influx_select rows batch_size win = Inr (take batch_size (sort_key time (in_window rows win)))"

text \<open>
  Modelled from the spec: section 6 (d) gives the aggregate query of the store: the number of
  rows of the time range whose value for the field is not null. The answer is one point
  with the key \<^verbatim>\<open>count\<close>, and no point when no row of the range has a value. The answer
  does not depend on the queries received before.
\<close>

definition influx_count :: "'v batch \<Rightarrow> count_client" where
  "influx_count rows history query =
     (let (measurement, field, start_dt, end_dt) = query;
          n = length (filter (non_null field) (in_window rows (start_dt, end_dt)))
      in Inr (if n = 0 then [] else [[(''time'', TimeV start_dt), (''count'', IntV (int n))]]))"

section \<open>The windows of a run\<close>

text \<open>
  The number of iterations of the loop from \<open>current_time\<close>, the windows they query, and the
  loop unrolled over a list of windows. \<open>window_loop_run\<close> below proves that the loop of
  \<open>get_frequency\<close> is \<open>run_windows\<close> over these windows.
\<close>

definition n_windows :: "int \<Rightarrow> int \<Rightarrow> int \<Rightarrow> nat" where
  "n_windows w final_end_time current_time = nat ((final_end_time - current_time + w - 1) div w)"

definition windows_from :: "int \<Rightarrow> int \<Rightarrow> nat \<Rightarrow> window list" where
  "windows_from w current_time n =
     map (\<lambda>k. (current_time + int k * w, current_time + int (Suc k) * w)) [0..<n]"

fun run_windows ::
  "'v client \<Rightarrow> int \<Rightarrow> window list \<Rightarrow> int \<Rightarrow> 'v batch list \<Rightarrow> window list
     \<Rightarrow> error + int \<times> 'v batch list \<times> window list" where
  "run_windows client thr [] gap all_data issued = Inr (gap, all_data, issued)"
| "run_windows client thr (x # xs) gap all_data issued =
     (case client x of
        Inl e \<Rightarrow> Inl e
      | Inr d \<Rightarrow>
          if d \<noteq> [] then
            run_windows client thr xs (detect thr d gap) (all_data @ [d]) (issued @ [x])
          else run_windows client thr xs gap all_data (issued @ [x]))"

text \<open>The non-empty batches that a client returns for a list of windows.\<close>

fun fetched :: "'v client \<Rightarrow> window list \<Rightarrow> 'v batch list" where
  "fetched client [] = []"
| "fetched client (x # xs) =
     (case client x of
        Inl e \<Rightarrow> fetched client xs
      | Inr d \<Rightarrow> if d \<noteq> [] then d # fetched client xs else fetched client xs)"

definition duration :: "window \<Rightarrow> int" where
  "duration win = snd win - fst win"

text \<open>
  What the interval between two rows would add to the gap duration if they were successive rows
  of one batch.
\<close>

definition boundary_loss :: "int \<Rightarrow> 'v sample \<Rightarrow> 'v sample \<Rightarrow> int" where
  "boundary_loss thr a b = (if thr < epoch b - epoch a then (epoch b - epoch a - thr) * 1000000000 else 0)"

section \<open>Concrete stores and clients\<close>

text \<open>A row at an instant with no column beside \<^verbatim>\<open>time\<close>, and a client that finds no row.\<close>

definition sample_at :: "int \<Rightarrow> unit sample" where
  "sample_at t = \<lparr>time = t, field_values = Map.empty\<rparr>"

definition no_rows :: "unit client" where
  "no_rows win = Inr []"

text \<open>Two rows of the first window, 1000 seconds apart.\<close>

definition outage_client :: "unit client" where
  "outage_client win =
     (if win = (0, 1800000000000) then Inr [sample_at 0, sample_at 1000000000000] else Inr [])"

text \<open>
  One row one second before the end of the first window and one row 20 minutes into the
  second window.
\<close>

definition boundary_client :: "unit client" where
  "boundary_client win =
     (if win = (0, 1800000000000) then Inr [sample_at 1799000000000]
      else if win = (1800000000000, 3600000000000) then Inr [sample_at 3000000000000]
      else Inr [])"

text \<open>One row in the first window, with the one field \<^verbatim>\<open>battery_current\<close>.\<close>

definition one_row_client :: "unit client" where
  "one_row_client win =
     (if win = (0, 1800000000000)
      then Inr [\<lparr>time = 0, field_values = [''battery_current'' \<mapsto> Some ()]\<rparr>]
      else Inr [])"

text \<open>A client of the windowed engine whose every query raises.\<close>

definition failing_client :: "unit client" where
  "failing_client win = Inl QueryFailure"

text \<open>
  A client of the aggregate mode whose query raises the first time it is sent and is answered
  with the count 7 when it is sent again.
\<close>

definition flaky_count_client :: count_client where
  "flaky_count_client history query =
     (if query \<in> set history then Inr [[(''time'', TimeV 0), (''count'', IntV 7)]]
      else Inl QueryFailure)"

text \<open>
  A channel map file of three lines: a measurement without a tab, a blank line, and an indented
  line with a tab. A client that counts 7 for every field.
\<close>

definition channel_file :: "string list" where
  "channel_file = [''bms_state'' @ [CHR 0x0A], [CHR 0x0A], ''  motor'' @ [CHR 0x09] @ ''rpm'' @ [CHR 0x0A]]"

definition seven_count_client :: count_client where
  "seven_count_client history query =
     Inr [[(''time'', TimeV (fst (snd (snd query)))), (''count'', IntV 7)]]"

text \<open>A store of two rows one second apart, each with a value for \<^verbatim>\<open>battery_current\<close>.\<close>

definition two_values :: "unit batch" where
  "two_values = [\<lparr>time = 0, field_values = [''battery_current'' \<mapsto> Some ()]\<rparr>,
                 \<lparr>time = 1000000000, field_values = [''battery_current'' \<mapsto> Some ()]\<rparr>]"

text \<open>A store of one row, 25 minutes after the instant 0, with a value for \<^verbatim>\<open>battery_current\<close>.\<close>

definition late_value :: "unit batch" where
  "late_value = [\<lparr>time = 1500000000000, field_values = [''battery_current'' \<mapsto> Some ()]\<rparr>]"

text \<open>
  A store of four rows, two in each of the first two windows of 30 minutes; the last row has
  no value for \<^verbatim>\<open>battery_current\<close>.
\<close>

definition two_window_values :: "unit batch" where
  "two_window_values =
     [\<lparr>time = 0, field_values = [''battery_current'' \<mapsto> Some ()]\<rparr>,
      \<lparr>time = 1000000000, field_values = [''battery_current'' \<mapsto> Some ()]\<rparr>,
      \<lparr>time = 2000000000000, field_values = [''battery_current'' \<mapsto> Some ()]\<rparr>,
      \<lparr>time = 2001000000000, field_values = [''battery_current'' \<mapsto> None]\<rparr>]"

section \<open>The loop and its windows\<close>

lemma n_windows_step:
  assumes "0 < w" and "cur < fin"
  shows "n_windows w fin cur = Suc (n_windows w fin (cur + w))"
proof -
  have "(fin - cur + w - 1) div w = (fin - cur - 1) div w + 1"
    using assms(1) by (metis add.commute add_diff_eq div_add_self1 less_irrefl)
  moreover have "0 \<le> (fin - cur - 1) div w"
    using assms by (simp add: pos_imp_zdiv_nonneg_iff)
  moreover have "fin - (cur + w) + w - 1 = fin - cur - 1"
    by simp
  ultimately show ?thesis
    unfolding n_windows_def by (simp add: nat_add_distrib)
qed

lemma n_windows_done:
  assumes "0 < w" and "\<not> cur < fin"
  shows "n_windows w fin cur = 0"
proof -
  have "(fin - cur + w - 1) div w \<le> (w - 1) div w"
    using assms by (intro zdiv_mono1) auto
  also have "(w - 1) div w = 0"
    using assms(1) by simp
  finally show ?thesis
    unfolding n_windows_def by simp
qed

lemma windows_from_Suc:
  "windows_from w cur (Suc n) = (cur, cur + w) # windows_from w (cur + w) n"
  unfolding windows_from_def
  by (simp add: upt_conv_Cons map_Suc_upt[symmetric] algebra_simps del: upt_Suc)

lemma window_loop_run:
  assumes w: "0 < w"
  shows "window_loop client w thr fin cur gap all_data issued =
         Some (run_windows client thr (windows_from w cur (n_windows w fin cur))
                 gap all_data issued)"
proof (induction "n_windows w fin cur" arbitrary: cur gap all_data issued)
  case 0
  then have "\<not> cur < fin"
    using n_windows_step[OF w, of cur fin] by auto
  moreover have "windows_from w cur 0 = []"
    by (simp add: windows_from_def)
  ultimately show ?case
    using 0 by (subst window_loop.simps) simp
next
  case (Suc n)
  then have lt: "cur < fin"
    using n_windows_done[OF w, of cur fin] by auto
  then have n: "n = n_windows w fin (cur + w)"
    using Suc.hyps(2) n_windows_step[OF w lt] by simp
  have W: "windows_from w cur (n_windows w fin cur) =
           (cur, cur + w) # windows_from w (cur + w) (n_windows w fin (cur + w))"
    using n_windows_step[OF w lt] by (simp add: windows_from_Suc)
  show ?case
    by (subst window_loop.simps) (simp add: lt W Suc.hyps(1)[OF n] Let_def split: sum.split)
qed

lemma detect_add: "detect thr d gap = gap + detect thr d 0"
  by (simp add: detect_def)

lemma run_windows_Inr:
  "run_windows client thr ws gap all_data issued = Inr (gap', all', issued') \<Longrightarrow>
   issued' = issued @ ws \<and> all' = all_data @ fetched client ws \<and>
   gap' = gap + sum_list (map (\<lambda>b. detect thr b 0) (fetched client ws)) \<and>
   (\<forall>x \<in> set ws. \<exists>d. client x = Inr d)"
proof (induction ws arbitrary: gap all_data issued)
  case Nil
  then show ?case by simp
next
  case (Cons x xs)
  from Cons.prems obtain d where d: "client x = Inr d"
    by (cases "client x") auto
  show ?case
  proof (cases "d = []")
    case True
    with Cons.prems d have "run_windows client thr xs gap all_data (issued @ [x]) = Inr (gap', all', issued')"
      by simp
    from Cons.IH[OF this] show ?thesis using d True by simp
  next
    case False
    with Cons.prems d have "run_windows client thr xs (detect thr d gap) (all_data @ [d]) (issued @ [x]) = Inr (gap', all', issued')"
      by simp
    from Cons.IH[OF this] show ?thesis using d False by (simp add: detect_add[of thr d gap])
  qed
qed

lemma run_windows_ok:
  "\<forall>x \<in> set ws. \<exists>d. client x = Inr d \<Longrightarrow>
   run_windows client thr ws gap all_data issued =
     Inr (gap + sum_list (map (\<lambda>b. detect thr b 0) (fetched client ws)),
          all_data @ fetched client ws, issued @ ws)"
proof (induction ws arbitrary: gap all_data issued)
  case Nil
  then show ?case by simp
next
  case (Cons x xs)
  then obtain d where d: "client x = Inr d" by auto
  from Cons show ?case
    by (simp add: d detect_add[of thr d gap])
qed

lemma run_windows_fail:
  "\<exists>x \<in> set ws. \<exists>e. client x = Inl e \<Longrightarrow> \<exists>e. run_windows client thr ws gap all_data issued = Inl e"
proof (induction ws arbitrary: gap all_data issued)
  case Nil
  then show ?case by simp
next
  case (Cons x xs)
  then show ?case
    by (cases "client x") auto
qed

lemma n_windows_bounds:
  assumes w: "0 < w" and lt: "cur < fin"
  shows "fin \<le> cur + int (n_windows w fin cur) * w"
    and "cur + int (n_windows w fin cur) * w < fin + w"
    and "(cur + int (n_windows w fin cur) * w = fin) = ((fin - cur) mod w = 0)"
    and "0 < n_windows w fin cur"
proof -
  define L where "L = fin - cur"
  define q where "q = (L + w - 1) div w"
  have Lpos: "0 < L" using lt by (simp add: L_def)
  have qnonneg: "0 \<le> q" unfolding q_def using w Lpos by (simp add: pos_imp_zdiv_nonneg_iff)
  have n: "int (n_windows w fin cur) = q" unfolding n_windows_def q_def L_def using qnonneg[unfolded q_def L_def] by simp
  have eq: "q * w = L + w - 1 - (L + w - 1) mod w"
    unfolding q_def by (metis add_diff_cancel_right' div_mult_mod_eq mult.commute)
  have m: "0 \<le> (L + w - 1) mod w" "(L + w - 1) mod w < w" using w by simp_all
  have nw: "int (n_windows w fin cur) * w = q * w" by (simp add: n)
  show "fin \<le> cur + int (n_windows w fin cur) * w" using eq m nw L_def by linarith
  show "cur + int (n_windows w fin cur) * w < fin + w" using eq m nw L_def by linarith
  show "0 < n_windows w fin cur" using n_windows_step[OF w lt] by simp
  show "(cur + int (n_windows w fin cur) * w = fin) = ((fin - cur) mod w = 0)"
  proof
    assume "cur + int (n_windows w fin cur) * w = fin"
    then have "L = q * w" using n L_def by simp
    then show "(fin - cur) mod w = 0" unfolding L_def by simp
  next
    assume "(fin - cur) mod w = 0"
    then have "w dvd L" unfolding L_def by (simp add: mod_eq_0_iff_dvd)
    then obtain k where k: "L = k * w" by (auto simp: dvd_def mult.commute)
    have "q = (k * w + (w - 1)) div w" unfolding q_def k by (simp add: algebra_simps)
    also have "\<dots> = k" using w by simp
    finally show "cur + int (n_windows w fin cur) * w = fin" using n k L_def by simp
  qed
qed

lemma windows_from_props:
  shows "length (windows_from w cur n) = n"
    and "i < n \<Longrightarrow> windows_from w cur n ! i = (cur + int i * w, cur + int i * w + w)"
    and "0 < n \<Longrightarrow> last (windows_from w cur n) = (cur + int n * w - w, cur + int n * w)"
    and "sum_list (map duration (windows_from w cur n)) = int n * w"
proof -
  show "length (windows_from w cur n) = n" by (simp add: windows_from_def)
  show "i < n \<Longrightarrow> windows_from w cur n ! i = (cur + int i * w, cur + int i * w + w)"
    by (simp add: windows_from_def algebra_simps)
  show "0 < n \<Longrightarrow> last (windows_from w cur n) = (cur + int n * w - w, cur + int n * w)"
    by (cases n) (simp_all add: windows_from_def algebra_simps)
  show "sum_list (map duration (windows_from w cur n)) = int n * w"
    by (induction n) (simp_all add: windows_from_def duration_def algebra_simps)
qed

section \<open>Gap detection\<close>

lemma excess_sum:
  "sum_list (filter (\<lambda>d. thr < d) ds) - thr * int (length (filter (\<lambda>d. thr < d) ds)) =
   (\<Sum>d\<leftarrow>ds. if thr < d then d - thr else 0)"
  by (induction ds) (simp_all add: algebra_simps)

lemma detect_sum:
  "detect thr data acc =
   acc + (\<Sum>d\<leftarrow>diffs (map epoch data). if thr < d then d - thr else 0) * 1000000000"
proof (cases "gaps thr data = []")
  case True
  then have "gap_seconds thr data = 0" by (simp add: gap_seconds_def)
  then have "(\<Sum>d\<leftarrow>diffs (map epoch data). if thr < d then d - thr else 0) = 0"
    using excess_sum[of thr "diffs (map epoch data)"] by (simp add: gap_seconds_def gaps_def)
  with True show ?thesis by (simp add: detect_def)
next
  case False
  then show ?thesis
    using excess_sum[of thr "diffs (map epoch data)"] by (simp add: detect_def gap_seconds_def gaps_def)
qed

lemma diffs_length: "length (diffs xs) = length xs - 1"
  by (induction xs rule: diffs.induct) simp_all

lemma diffs_nth: "Suc i < length xs \<Longrightarrow> diffs xs ! i = xs ! Suc i - xs ! i"
proof (induction xs arbitrary: i rule: diffs.induct)
  case (1 a b xs)
  then show ?case by (cases i) simp_all
qed simp_all

lemma diffs_append:
  "xs \<noteq> [] \<Longrightarrow> ys \<noteq> [] \<Longrightarrow> diffs (xs @ ys) = diffs xs @ (hd ys - last xs) # diffs ys"
  by (induction xs rule: diffs.induct) (auto simp: neq_Nil_conv)

text \<open>
  C3 (as amended). The deltas are taken between the timestamps of successive rows cut to whole
  seconds since the epoch. For every batch and threshold, exactly the deltas greater than the
  threshold count, each adds its excess over the threshold, and the sum of the excesses, in
  seconds, is added to the accumulated gap duration; a batch with a single such delta \<open>G\<close>
  adds \<open>G - thr\<close> seconds.
\<close>

theorem gap_detector:
  "detect thr data acc =
     acc + (\<Sum>d\<leftarrow>diffs (map epoch data). if thr < d then d - thr else 0) * 1000000000 \<and>
   length (diffs (map epoch data)) = length data - 1 \<and>
   (\<forall>i. Suc i < length data \<longrightarrow>
        diffs (map epoch data) ! i = time (data ! Suc i) div 1000000000 - time (data ! i) div 1000000000) \<and>
   (gaps thr data = [G] \<longrightarrow> thr < G \<and> detect thr data acc = acc + (G - thr) * 1000000000)"
proof -
  have "gaps thr data = [G] \<Longrightarrow> thr < G"
  proof -
    assume "gaps thr data = [G]"
    then have "G \<in> set (filter (\<lambda>d. thr < d) (diffs (map epoch data)))" by (simp add: gaps_def)
    then show "thr < G" by simp
  qed
  moreover have "gaps thr data = [G] \<Longrightarrow> detect thr data acc = acc + (G - thr) * 1000000000"
    by (simp add: detect_def gap_seconds_def)
  ultimately show ?thesis
    by (simp add: detect_sum diffs_length diffs_nth epoch_def)
qed

theorem gap_detector_witness:
  "gaps gap_threshold [sample_at 0, sample_at 2000000000, sample_at 12000000000] = [10] \<and>
   gap_threshold < 10 \<and>
   detect gap_threshold [sample_at 0, sample_at 2000000000, sample_at 12000000000] 0 =
     0 + (10 - gap_threshold) * 1000000000"
proof -
  have g: "gaps gap_threshold [sample_at 0, sample_at 2000000000, sample_at 12000000000] = [10]"
    by (simp add: gaps_def epoch_def sample_at_def gap_threshold_def)
  have "gaps gap_threshold [sample_at 0, sample_at 2000000000, sample_at 12000000000] = [10] \<longrightarrow>
     gap_threshold < 10 \<and>
     detect gap_threshold [sample_at 0, sample_at 2000000000, sample_at 12000000000] 0 =
       0 + (10 - gap_threshold) * 1000000000"
    using gap_detector[of gap_threshold "[sample_at 0, sample_at 2000000000, sample_at 12000000000]" 0 10]
    by blast
  with g show ?thesis by blast
qed

text \<open>
  Two rows 4.8 seconds apart, at 0.1 s and 4.9 s, are more than the threshold of 4 seconds
  apart and add nothing; two rows 4.2 seconds apart, at 0.9 s and 5.1 s, add one whole second.
\<close>

theorem gap_detector_subsecond:
  "gap_threshold * 1000000000 < time (sample_at 4900000000) - time (sample_at 100000000) \<and>
   detect gap_threshold [sample_at 100000000, sample_at 4900000000] 0 = 0 \<and>
   time (sample_at 5100000000) - time (sample_at 900000000) = 4200000000 \<and>
   detect gap_threshold [sample_at 900000000, sample_at 5100000000] 0 = 1000000000"
  by (simp add: detect_def gaps_def gap_seconds_def epoch_def sample_at_def gap_threshold_def)

section \<open>The window schedule\<close>

text \<open>
  The windows of a run. For a range with \<open>start < fin\<close> and a positive window size the loop
  ends, and the windows that a completed run has queried, in order, begin at the start of the
  range, each have the full window size, and each begins where the one before ends. The end
  of the last window is the first multiple of the window size from the start that reaches the
  end of the range: it is at or past the end of the range, by less than one window, and it is
  the end of the range exactly when the length of the range is a multiple of the window size.
\<close>

lemma window_schedule:
  assumes w: "0 < w" and lt: "start < fin"
  shows "window_loop client w thr fin start gap all_data [] \<noteq> None \<and>
         (\<forall>gap' all' ws.
            window_loop client w thr fin start gap all_data [] = Some (Inr (gap', all', ws)) \<longrightarrow>
            ws \<noteq> [] \<and> fst (hd ws) = start \<and>
            (\<forall>i < length ws. snd (ws ! i) = fst (ws ! i) + w) \<and>
            (\<forall>i. Suc i < length ws \<longrightarrow> fst (ws ! Suc i) = snd (ws ! i)) \<and>
            fin \<le> snd (last ws) \<and> snd (last ws) < fin + w \<and>
            (snd (last ws) = fin) = ((fin - start) mod w = 0) \<and>
            sum_list (map duration ws) = snd (last ws) - start)"
proof (rule conjI, goal_cases)
  case 1
  show ?case
    by (simp add: window_loop_run[OF w])
next
  case 2
  show ?case
  proof (intro allI impI)
  fix gap' all' ws
  assume run: "window_loop client w thr fin start gap all_data [] = Some (Inr (gap', all', ws))"
  define n where "n = n_windows w fin start"
  from run have "run_windows client thr (windows_from w start n) gap all_data [] = Inr (gap', all', ws)"
    unfolding n_def by (simp add: window_loop_run[OF w])
  from run_windows_Inr[OF this] have ws: "ws = windows_from w start n" by simp
  have npos: "0 < n" unfolding n_def by (rule n_windows_bounds(4)[OF w lt])
  have len: "length ws = n" by (simp add: ws windows_from_props(1))
  have nth: "\<And>i. i < n \<Longrightarrow> ws ! i = (start + int i * w, start + int i * w + w)"
    by (simp add: ws windows_from_props(2))
  have lst: "last ws = (start + int n * w - w, start + int n * w)"
    using npos by (simp add: ws windows_from_props(3))
  have "ws \<noteq> []" using len npos by auto
  moreover have "fst (hd ws) = start" using nth[OF npos] \<open>ws \<noteq> []\<close> by (simp add: hd_conv_nth)
  moreover have "\<forall>i < length ws. snd (ws ! i) = fst (ws ! i) + w" by (simp add: len nth)
  moreover have "\<forall>i. Suc i < length ws \<longrightarrow> fst (ws ! Suc i) = snd (ws ! i)"
    by (simp add: len nth algebra_simps)
  moreover have "fin \<le> snd (last ws)" using n_windows_bounds(1)[OF w lt] by (simp add: lst n_def)
  moreover have "snd (last ws) < fin + w" using n_windows_bounds(2)[OF w lt] by (simp add: lst n_def)
  moreover have "(snd (last ws) = fin) = ((fin - start) mod w = 0)"
    using n_windows_bounds(3)[OF w lt] by (simp add: lst n_def)
  moreover have "sum_list (map duration ws) = snd (last ws) - start"
    by (simp add: ws windows_from_props(4) lst[unfolded ws])
  ultimately show "ws \<noteq> [] \<and> fst (hd ws) = start \<and>
            (\<forall>i < length ws. snd (ws ! i) = fst (ws ! i) + w) \<and>
            (\<forall>i. Suc i < length ws \<longrightarrow> fst (ws ! Suc i) = snd (ws ! i)) \<and>
            fin \<le> snd (last ws) \<and> snd (last ws) < fin + w \<and>
            (snd (last ws) = fin) = ((fin - start) mod w = 0) \<and>
            sum_list (map duration ws) = snd (last ws) - start"
    by blast
  qed
qed

text \<open>
  C1. The windows of a range are specified to end with the range and to have durations that
  add up to its length. For a range of 20 minutes \<open>get_frequency\<close> queries one window of 30
  minutes, which ends 10 minutes after the range; a row 25 minutes after the start, which is
  not in the range, is counted, while the effective time is taken over the 20 minutes.
\<close>

theorem window_schedule_overshoot:
  "window_loop no_rows window_size gap_threshold 1200000000000 0 0 [] [] =
     Some (Inr (0, [], [(0, 1800000000000)])) \<and>
   snd (last [(0::int, 1800000000000::int)]) \<noteq> 1200000000000 \<and>
   sum_list (map duration [(0, 1800000000000)]) \<noteq> 1200000000000 - 0 \<and>
   in_window late_value (0, 1200000000000) = [] \<and>
   get_frequency (influx_select late_value 100000) 0 1200000000000
       [(''CAN_ID_1'', [''battery_current''])] =
     Some (Inr ([(''CAN_ID_1'', [(''battery_current'', 1)])], 1200000000000))"
proof -
  have run: "window_loop no_rows window_size gap_threshold 1200000000000 0 0 [] [] =
     Some (Inr (0, [], [(0, 1800000000000)]))"
    by (simp add: window_loop.simps window_size_def no_rows_def)
  have out: "in_window late_value (0, 1200000000000) = []"
    by (simp add: in_window_def late_value_def)
  have loop: "window_loop (influx_select late_value 100000) window_size gap_threshold
                1200000000000 0 0 [] [] =
              Some (Inr (0, [late_value], [(0, 1800000000000)]))"
    by (simp add: window_loop.simps window_size_def influx_select_def in_window_def
        late_value_def detect_def gaps_def)
  have gf: "get_frequency (influx_select late_value 100000) 0 1200000000000
       [(''CAN_ID_1'', [''battery_current''])] =
     Some (Inr ([(''CAN_ID_1'', [(''battery_current'', 1)])], 1200000000000))"
    by (simp add: get_frequency_def loop) (simp add: late_value_def column_count_def non_null_def)
  from run out gf show ?thesis by (simp add: duration_def)
qed

section \<open>The accumulated gap duration\<close>

lemma excess_nonneg: "0 \<le> (\<Sum>d\<leftarrow>ds. if thr < d then d - thr else (0::int))"
  by (induction ds) simp_all

lemma detect_mono: "acc \<le> detect thr data acc"
  using excess_nonneg[of thr "diffs (map epoch data)"] by (simp add: detect_sum)

lemma lost_nonneg: "0 \<le> sum_list (map (\<lambda>b. detect thr b 0) bs)"
proof (induction bs)
  case Nil
  then show ?case by simp
next
  case (Cons b bs)
  have "0 \<le> detect thr b 0" by (rule detect_mono)
  with Cons show ?case by simp
qed


lemma excess_pos:
  "ds \<noteq> [] \<Longrightarrow> \<forall>d \<in> set ds. thr < d \<Longrightarrow> 0 < sum_list ds - thr * int (length ds)"
proof (induction ds)
  case Nil
  then show ?case by simp
next
  case (Cons d ds)
  have d: "thr < d" using Cons.prems by simp
  show ?case
  proof (cases "ds = []")
    case True
    with d show ?thesis by simp
  next
    case False
    with Cons have "0 < sum_list ds - thr * int (length ds)" by simp
    moreover have "sum_list (d # ds) - thr * int (length (d # ds)) =
                   (d - thr) + (sum_list ds - thr * int (length ds))"
      by (simp add: distrib_left)
    ultimately show ?thesis using d by linarith
  qed
qed

lemma gap_seconds_pos: "gaps thr data \<noteq> [] \<Longrightarrow> 0 < gap_seconds thr data"
proof -
  assume ne: "gaps thr data \<noteq> []"
  have "\<forall>d \<in> set (gaps thr data). thr < d" by (simp add: gaps_def)
  from excess_pos[OF ne this] show ?thesis by (simp add: gap_seconds_def)
qed


text \<open>
  C9. The accumulated gap duration never decreases: an iteration leaves it at or above its
  value before, every batch with a gap adds a positive number of seconds, and a completed run
  ends with at least the value it started from, which is zero in \<open>get_frequency\<close>.
\<close>

theorem gap_duration_monotone:
  assumes w: "0 < w"
    and run: "window_loop client w thr fin cur gap all_data issued = Some (Inr (gap', all', issued'))"
  shows "gap \<le> gap' \<and> (\<forall>data acc. acc \<le> detect thr (data :: 'a batch) acc) \<and>
         (\<forall>data :: 'a batch. gaps thr data \<noteq> [] \<longrightarrow> 0 < gap_seconds thr data)"
proof -
  from run have "run_windows client thr (windows_from w cur (n_windows w fin cur)) gap all_data issued
      = Inr (gap', all', issued')"
    by (simp add: window_loop_run[OF w])
  from run_windows_Inr[OF this]
  have g: "gap' = gap + sum_list (map (\<lambda>b. detect thr b 0) (fetched client (windows_from w cur (n_windows w fin cur))))"
    by blast
  have "gap \<le> gap'"
    unfolding g using lost_nonneg[of thr "fetched client (windows_from w cur (n_windows w fin cur))"] by linarith
  moreover have "\<forall>data acc. acc \<le> detect thr (data :: 'a batch) acc"
    by (intro allI detect_mono)
  moreover have "\<forall>data :: 'a batch. gaps thr data \<noteq> [] \<longrightarrow> 0 < gap_seconds thr data"
    by (intro allI impI gap_seconds_pos)
  ultimately show ?thesis by (intro conjI)
qed

theorem gap_duration_monotone_witness:
  "(0::int) < window_size \<and>
   window_loop outage_client window_size gap_threshold 1800000000000 0 0 [] [] =
     Some (Inr (996000000000, [[sample_at 0, sample_at 1000000000000]], [(0, 1800000000000)])) \<and>
   (0::int) \<le> 996000000000"
proof -
  have w: "(0::int) < window_size" by (simp add: window_size_def)
  have run: "window_loop outage_client window_size gap_threshold 1800000000000 0 0 [] [] =
     Some (Inr (996000000000, [[sample_at 0, sample_at 1000000000000]], [(0, 1800000000000)]))"
    by (simp add: window_loop.simps window_size_def outage_client_def detect_def gaps_def
        gap_seconds_def epoch_def sample_at_def gap_threshold_def)
  show ?thesis using w run gap_duration_monotone[OF w run] by simp
qed

section \<open>Gaps across window boundaries\<close>

lemma detect_append:
  assumes "b1 \<noteq> []" and "b2 \<noteq> []"
  shows "detect thr (b1 @ b2) 0 = detect thr b1 0 + detect thr b2 0 + boundary_loss thr (last b1) (hd b2)"
proof -
  have "diffs (map epoch (b1 @ b2)) =
        diffs (map epoch b1) @ (epoch (hd b2) - epoch (last b1)) # diffs (map epoch b2)"
    using assms diffs_append[of "map epoch b1" "map epoch b2"] by (simp add: hd_map last_map)
  then show ?thesis
    by (simp add: detect_sum boundary_loss_def algebra_simps)
qed

lemma detect_empty: "detect thr [] acc = acc"
  by (simp add: detect_def gaps_def)

lemma fetched_sum:
  "sum_list (map (\<lambda>b. detect thr b 0) (fetched client ws)) =
   sum_list (map (\<lambda>win. case client win of Inl e \<Rightarrow> 0 | Inr d \<Rightarrow> detect thr d 0) ws)"
  by (induction ws) (simp_all add: detect_empty split: sum.split)

text \<open>
  C4. A completed run queries the windows of its range in order and keeps, one for each
  window, the non-empty batches that the client returns for them. The gap duration it adds
  is the sum, over these windows, of what the detector finds inside the batch of the window
  alone. For two consecutive non-empty batches that sum is what detection over their
  concatenation would give less the loss of the interval from the last row of the first to
  the first row of the second: that interval adds nothing, whatever its length.
\<close>

theorem gap_reset_at_boundary:
  assumes w: "0 < w"
    and run: "window_loop client w thr fin cur gap all_data issued = Some (Inr (gap', all', issued'))"
  shows "issued' = issued @ windows_from w cur (n_windows w fin cur) \<and>
         all' = all_data @ fetched client (windows_from w cur (n_windows w fin cur)) \<and>
         gap' = gap + sum_list (map (\<lambda>b. detect thr b 0)
                                  (fetched client (windows_from w cur (n_windows w fin cur)))) \<and>
         gap' = gap + sum_list (map (\<lambda>win. case client win of Inl e \<Rightarrow> 0 | Inr d \<Rightarrow> detect thr d 0)
                                  (windows_from w cur (n_windows w fin cur))) \<and>
         (\<forall>b1 b2 :: 'a batch. b1 \<noteq> [] \<and> b2 \<noteq> [] \<longrightarrow>
            detect thr b1 0 + detect thr b2 0 =
            detect thr (b1 @ b2) 0 - boundary_loss thr (last b1) (hd b2))"
proof -
  from run have "run_windows client thr (windows_from w cur (n_windows w fin cur)) gap all_data issued
      = Inr (gap', all', issued')"
    by (simp add: window_loop_run[OF w])
  from run_windows_Inr[OF this]
  have r: "issued' = issued @ windows_from w cur (n_windows w fin cur)"
    "all' = all_data @ fetched client (windows_from w cur (n_windows w fin cur))"
    "gap' = gap + sum_list (map (\<lambda>b. detect thr b 0)
                              (fetched client (windows_from w cur (n_windows w fin cur))))"
    by simp_all
  from r(3) have s: "gap' = gap + sum_list (map (\<lambda>win. case client win of Inl e \<Rightarrow> 0 | Inr d \<Rightarrow> detect thr d 0)
                                  (windows_from w cur (n_windows w fin cur)))"
    by (simp only: fetched_sum)
  have "\<forall>b1 b2 :: 'a batch. b1 \<noteq> [] \<and> b2 \<noteq> [] \<longrightarrow>
            detect thr b1 0 + detect thr b2 0 =
            detect thr (b1 @ b2) 0 - boundary_loss thr (last b1) (hd b2)"
    by (simp add: detect_append)
  with r s show ?thesis by (intro conjI)
qed

text \<open>
  A range of two windows with one row one second before the boundary and one row 20 minutes
  after it: the client returns one batch for each window, the run adds no gap duration, and
  the interval across the boundary, 1201 seconds, would add 1197 seconds inside one batch.
\<close>

theorem gap_reset_at_boundary_witness:
  "window_loop boundary_client window_size gap_threshold 3600000000000 0 0 [] [] =
     Some (Inr (0, [[sample_at 1799000000000], [sample_at 3000000000000]],
                [(0, 1800000000000), (1800000000000, 3600000000000)])) \<and>
   fetched boundary_client (windows_from window_size 0 (n_windows window_size 3600000000000 0)) =
     [[sample_at 1799000000000], [sample_at 3000000000000]] \<and>
   boundary_loss gap_threshold (sample_at 1799000000000) (sample_at 3000000000000) = 1197000000000 \<and>
   detect gap_threshold ([sample_at 1799000000000] @ [sample_at 3000000000000]) 0 = 1197000000000"
proof -
  have w: "(0::int) < window_size" by (simp add: window_size_def)
  have run: "window_loop boundary_client window_size gap_threshold 3600000000000 0 0 [] [] =
     Some (Inr (0, [[sample_at 1799000000000], [sample_at 3000000000000]],
                [(0, 1800000000000), (1800000000000, 3600000000000)]))"
    by (simp add: window_loop.simps window_size_def boundary_client_def detect_def gaps_def
        gap_seconds_def epoch_def sample_at_def gap_threshold_def)
  note t = gap_reset_at_boundary[OF w run]
  have f: "fetched boundary_client (windows_from window_size 0 (n_windows window_size 3600000000000 0)) =
     [[sample_at 1799000000000], [sample_at 3000000000000]]"
    using t[THEN conjunct2, THEN conjunct1, symmetric] by simp
  have bl: "boundary_loss gap_threshold (sample_at 1799000000000) (sample_at 3000000000000) = 1197000000000"
    by (simp add: boundary_loss_def epoch_def sample_at_def gap_threshold_def)
  have d0: "detect gap_threshold [sample_at 1799000000000] 0 = 0" "detect gap_threshold [sample_at 3000000000000] 0 = 0"
    by (simp_all add: detect_def gaps_def)
  have ne: "[sample_at 1799000000000] \<noteq> [] \<and> [sample_at 3000000000000] \<noteq> []" by simp
  from t ne
  have "detect gap_threshold [sample_at 1799000000000] 0 + detect gap_threshold [sample_at 3000000000000] 0 =
        detect gap_threshold ([sample_at 1799000000000] @ [sample_at 3000000000000]) 0 -
        boundary_loss gap_threshold (last [sample_at 1799000000000]) (hd [sample_at 3000000000000])"
    by blast
  with d0 bl have "detect gap_threshold ([sample_at 1799000000000] @ [sample_at 3000000000000]) 0 = 1197000000000"
    by simp
  with run f bl show ?thesis by blast
qed

section \<open>The effective time\<close>

text \<open>
  C5. Whenever \<open>get_frequency\<close> returns, the effective time is the length of the range less
  the gap duration that the loop has accumulated, with no lower bound: an accumulated gap
  duration above the length of the range gives a negative effective time.
\<close>

theorem effective_time_unclamped:
  assumes "get_frequency client start fin can_id_fields = Some (Inr (table, effective_time))"
  shows "\<exists>gap all_data issued.
           window_loop client window_size gap_threshold fin start 0 [] [] = Some (Inr (gap, all_data, issued)) \<and>
           effective_time = (fin - start) - gap \<and>
           (fin - start < gap \<longrightarrow> effective_time < 0)"
  using assms
  by (auto simp: get_frequency_def Let_def split: option.splits sum.splits prod.splits if_splits)

text \<open>
  A range of one second whose only window, 30 minutes long, holds two rows 1000 seconds apart:
  996 seconds of gap against a range of 1 second.
\<close>

theorem effective_time_unclamped_witness:
  "get_frequency outage_client 0 1000000000 [] = Some (Inr ([], - 995000000000)) \<and>
   window_loop outage_client window_size gap_threshold 1000000000 0 0 [] [] =
     Some (Inr (996000000000, [[sample_at 0, sample_at 1000000000000]], [(0, 1800000000000)])) \<and>
   (1000000000::int) - 0 < 996000000000 \<and> (- 995000000000::int) < 0"
proof -
  have run: "window_loop outage_client window_size gap_threshold 1000000000 0 0 [] [] =
     Some (Inr (996000000000, [[sample_at 0, sample_at 1000000000000]], [(0, 1800000000000)]))"
    by (simp add: window_loop.simps window_size_def outage_client_def detect_def gaps_def
        gap_seconds_def epoch_def sample_at_def gap_threshold_def)
  have gf: "get_frequency outage_client 0 1000000000 [] = Some (Inr ([], - 995000000000))"
    by (simp add: get_frequency_def run)
  from effective_time_unclamped[OF gf] run show ?thesis using gf by simp
qed

section \<open>A run without data\<close>

lemma run_windows_empty:
  "\<forall>x \<in> set ws. client x = Inr [] \<Longrightarrow>
   run_windows client thr ws gap all_data issued = Inr (gap, all_data, issued @ ws)"
  by (induction ws arbitrary: issued) simp_all

text \<open>
  C6. When the client finds no row in any window of the run, \<open>get_frequency\<close> returns the
  count 0 for every field of every channel and the full length of the range as effective time.
\<close>

theorem no_data_full_coverage:
  assumes "\<forall>win \<in> set (windows_from window_size start (n_windows window_size fin start)).
             client win = Inr []"
  shows "get_frequency client start fin can_id_fields =
         Some (Inr (map (\<lambda>(can_id, flds). (can_id, map (\<lambda>field. (field, 0)) flds)) can_id_fields,
                    fin - start))"
proof -
  have w: "(0::int) < window_size" by (simp add: window_size_def)
  have "window_loop client window_size gap_threshold fin start 0 [] [] =
        Some (Inr (0, [], windows_from window_size start (n_windows window_size fin start)))"
    using run_windows_empty[OF assms] by (simp add: window_loop_run[OF w])
  then show ?thesis by (simp add: get_frequency_def frequency_dict_def)
qed

theorem no_data_full_coverage_witness:
  "get_frequency no_rows 0 3600000000000 [(''CAN_ID_1'', [''battery_current'', ''battery_voltage''])] =
     Some (Inr ([(''CAN_ID_1'', [(''battery_current'', 0), (''battery_voltage'', 0)])], 3600000000000))"
proof -
  have h: "\<forall>win \<in> set (windows_from window_size 0 (n_windows window_size 3600000000000 0)).
             no_rows win = Inr []"
    by (simp add: no_rows_def)
  from no_data_full_coverage[OF h, of "[(''CAN_ID_1'', [''battery_current'', ''battery_voltage''])]"]
  show ?thesis by simp
qed

section \<open>Fields without a column\<close>

text \<open>
  C7. A field of the channel map that is a key of no returned row is specified to count 0.
  On a run that returns one row, \<open>get_frequency\<close> raises KeyError for such a field, and
  counts the field that the row does have.
\<close>

theorem absent_field_raises:
  "get_frequency one_row_client 0 1800000000000 [(''CAN_ID_1'', [''battery_voltage''])] = Some (Inl KeyError) \<and>
   get_frequency one_row_client 0 1800000000000 [(''CAN_ID_1'', [''battery_current''])] =
     Some (Inr ([(''CAN_ID_1'', [(''battery_current'', 1)])], 1800000000000))"
proof -
  have run: "window_loop one_row_client window_size gap_threshold 1800000000000 0 0 [] [] =
     Some (Inr (0, [[\<lparr>time = 0, field_values = [''battery_current'' \<mapsto> Some ()]\<rparr>]], [(0, 1800000000000)]))"
    by (simp add: window_loop.simps window_size_def one_row_client_def detect_def gaps_def)
  show ?thesis
    by (simp add: get_frequency_def run column_count_def non_null_def)
qed

section \<open>Failed queries\<close>

lemma get_count_history:
  "snd (snd (get_count_for_field client h m f s e)) = h @ [(m, f, s, e)]"
  by (simp add: get_count_for_field_def Let_def split: sum.split list.split option.split prod.split)

lemma rows_Cons:
  "map (\<lambda>k. G (h @ take k (q # Q)) ((q # Q) ! k)) [0..<length (q # Q)] =
   G h q # map (\<lambda>k. G ((h @ [q]) @ take k Q) (Q ! k)) [0..<length Q]"
  by (simp add: map_upt_Suc del: upt_Suc)

lemma rows_append:
  "map (\<lambda>k. G (h @ take k (A @ B)) ((A @ B) ! k)) [0..<length (A @ B)] =
   map (\<lambda>k. G (h @ take k A) (A ! k)) [0..<length A] @
   map (\<lambda>k. G ((h @ A) @ take k B) (B ! k)) [0..<length B]"
proof (induction A arbitrary: h)
  case Nil
  show ?case by simp
next
  case (Cons a A)
  have "map (\<lambda>k. G (h @ take k ((a # A) @ B)) (((a # A) @ B) ! k)) [0..<length ((a # A) @ B)] =
        G h a # map (\<lambda>k. G ((h @ [a]) @ take k (A @ B)) ((A @ B) ! k)) [0..<length (A @ B)]"
    using rows_Cons[of G h a "A @ B"] by simp
  also have "\<dots> = G h a # (map (\<lambda>k. G ((h @ [a]) @ take k A) (A ! k)) [0..<length A] @
                     map (\<lambda>k. G (((h @ [a]) @ A) @ take k B) (B ! k)) [0..<length B])"
    by (simp only: Cons.IH[of "h @ [a]"])
  also have "\<dots> = map (\<lambda>k. G (h @ take k (a # A)) ((a # A) ! k)) [0..<length (a # A)] @
                   map (\<lambda>k. G ((h @ a # A) @ take k B) (B ! k)) [0..<length B]"
    using rows_Cons[of G h a A] by simp
  finally show ?case .
qed

lemma count_all_fields_rows:
  "fst (count_all_fields client h m s e flds) =
     map (\<lambda>k. result_row client (h @ take k (map (\<lambda>f. (m, f, s, e)) flds))
                 (map (\<lambda>f. (m, f, s, e)) flds ! k))
         [0..<length (map (\<lambda>f. (m, f, s, e)) flds)] \<and>
   snd (snd (count_all_fields client h m s e flds)) = h @ map (\<lambda>f. (m, f, s, e)) flds"
proof (induction flds arbitrary: h)
  case Nil
  show ?case by simp
next
  case (Cons f flds)
  define q where "q = (m, f, s, e)"
  define Q where "Q = map (\<lambda>f. (m, f, s, e)) flds"
  have M: "map (\<lambda>f. (m, f, s, e)) (f # flds) = q # Q"
    by (simp add: q_def Q_def)
  have hist: "snd (snd (get_count_for_field client h m f s e)) = h @ [q]"
    unfolding q_def by (rule get_count_history)
  have r0: "result_row client h q = (m @ ''.count_'' @ f, fst (get_count_for_field client h m f s e))"
    by (simp add: result_row_def q_def)
  have f1: "fst (count_all_fields client h m s e (f # flds)) =
            result_row client h q # fst (count_all_fields client (h @ [q]) m s e flds)"
    by (simp add: case_prod_beta Let_def hist r0)
  have h1: "snd (snd (count_all_fields client h m s e (f # flds))) =
            snd (snd (count_all_fields client (h @ [q]) m s e flds))"
    by (simp add: case_prod_beta Let_def hist)
  note IH = Cons.IH[of "h @ [q]", folded Q_def]
  have "fst (count_all_fields client h m s e (f # flds)) =
        result_row client h q # map (\<lambda>k. result_row client ((h @ [q]) @ take k Q) (Q ! k)) [0..<length Q]"
    by (simp only: f1 IH[THEN conjunct1])
  also have "\<dots> = map (\<lambda>k. result_row client (h @ take k (q # Q)) ((q # Q) ! k)) [0..<length (q # Q)]"
    by (rule rows_Cons[symmetric])
  finally have A: "fst (count_all_fields client h m s e (f # flds)) =
     map (\<lambda>k. result_row client (h @ take k (q # Q)) ((q # Q) ! k)) [0..<length (q # Q)]" .
  have B: "snd (snd (count_all_fields client h m s e (f # flds))) = h @ q # Q"
    by (simp only: h1 IH[THEN conjunct2]) simp
  from A B show ?case unfolding M by (intro conjI)
qed

lemma run_queries_rows:
  "fst (run_queries client h s e mf) =
     map (\<lambda>k. result_row client (h @ take k (queries_of s e mf)) (queries_of s e mf ! k))
         [0..<length (queries_of s e mf)] \<and>
   snd (snd (run_queries client h s e mf)) = h @ queries_of s e mf"
proof (induction mf arbitrary: h)
  case Nil
  show ?case by (simp add: queries_of_def)
next
  case (Cons a mf)
  obtain m flds where a: "a = (m, flds)" by (cases a)
  define Qm where "Qm = map (\<lambda>f. (m, f, s, e)) flds"
  define Qr where "Qr = queries_of s e mf"
  have Q: "queries_of s e (a # mf) = Qm @ Qr"
    by (simp add: queries_of_def a Qm_def Qr_def)
  show ?case
  proof (cases "flds = []")
    case True
    then have Qm: "Qm = []" by (simp add: Qm_def)
    have f1: "fst (run_queries client h s e (a # mf)) = fst (run_queries client h s e mf)"
      and h1: "snd (snd (run_queries client h s e (a # mf))) = snd (snd (run_queries client h s e mf))"
      using True by (simp_all add: a case_prod_beta Let_def)
    show ?thesis
      unfolding Q Qm f1 h1 using Cons.IH[of h, folded Qr_def] by simp
  next
    case False
    note c = count_all_fields_rows[of client h m s e flds, folded Qm_def]
    have f1: "fst (run_queries client h s e (a # mf)) =
              fst (count_all_fields client h m s e flds) @ fst (run_queries client (h @ Qm) s e mf)"
      and h1: "snd (snd (run_queries client h s e (a # mf))) =
               snd (snd (run_queries client (h @ Qm) s e mf))"
      using False by (simp_all add: a case_prod_beta Let_def c[THEN conjunct2])
    note IH = Cons.IH[of "h @ Qm", folded Qr_def]
    have "fst (run_queries client h s e (a # mf)) =
          map (\<lambda>k. result_row client (h @ take k Qm) (Qm ! k)) [0..<length Qm] @
          map (\<lambda>k. result_row client ((h @ Qm) @ take k Qr) (Qr ! k)) [0..<length Qr]"
      by (simp only: f1 c[THEN conjunct1] IH[THEN conjunct1])
    also have "\<dots> = map (\<lambda>k. result_row client (h @ take k (Qm @ Qr)) ((Qm @ Qr) ! k)) [0..<length (Qm @ Qr)]"
      by (rule rows_append[symmetric])
    finally have A: "fst (run_queries client h s e (a # mf)) =
       map (\<lambda>k. result_row client (h @ take k (Qm @ Qr)) ((Qm @ Qr) ! k)) [0..<length (Qm @ Qr)]" .
    have B: "snd (snd (run_queries client h s e (a # mf))) = h @ Qm @ Qr"
      by (simp only: h1 IH[THEN conjunct2]) simp
    from A B show ?thesis unfolding Q by (intro conjI)
  qed
qed

lemma result_row_failed: "client h q = Inl err \<Longrightarrow> snd (result_row client h q) = IntV 0"
  by (cases q) (simp add: result_row_def get_count_for_field_def)

text \<open>
  C8 (as amended). A failed aggregate query of \<open>get_count_for_field\<close> is reported and
  answered with 0, and it is not sent again: every call of \<open>get_count_for_field\<close> adds
  exactly its one query to the history of the client, whatever the answer. The loop of
  \<open>run_queries\<close> goes on after a failure: it sends one query for every measurement and field,
  in order, and every row of its result holds the value that \<open>get_count_for_field\<close> returns
  for the answer to that query, which is 0 where the query failed. A failed window query of
  \<open>get_frequency\<close> is not caught: when the query of some window of the run raises,
  \<open>get_frequency\<close> raises and returns no result.
\<close>

theorem query_failure_handling:
  "(client history (measurement, field, start_dt, end_dt) = Inl err \<longrightarrow>
      get_count_for_field client history measurement field start_dt end_dt =
        (IntV 0,
         [Executing measurement field start_dt end_dt, ErrorExecuting measurement field err],
         history @ [(measurement, field, start_dt, end_dt)])) \<and>
   snd (snd (get_count_for_field client history measurement field start_dt end_dt)) =
     history @ [(measurement, field, start_dt, end_dt)] \<and>
   snd (snd (run_queries client history start_dt end_dt measurements_fields)) =
     history @ queries_of start_dt end_dt measurements_fields \<and>
   fst (run_queries client history start_dt end_dt measurements_fields) =
     map (\<lambda>k. result_row client
                 (history @ take k (queries_of start_dt end_dt measurements_fields))
                 (queries_of start_dt end_dt measurements_fields ! k))
         [0..<length (queries_of start_dt end_dt measurements_fields)] \<and>
   (\<forall>k < length (queries_of start_dt end_dt measurements_fields).
      (\<exists>e. client (history @ take k (queries_of start_dt end_dt measurements_fields))
                  (queries_of start_dt end_dt measurements_fields ! k) = Inl e) \<longrightarrow>
      snd (fst (run_queries client history start_dt end_dt measurements_fields) ! k) = IntV 0) \<and>
   ((\<exists>win \<in> set (windows_from window_size start (n_windows window_size fin start)).
        \<exists>e. row_client win = Inl e) \<longrightarrow>
      (\<exists>e. get_frequency row_client start fin can_id_fields = Some (Inl e)))"
proof -
  have w: "(0::int) < window_size" by (simp add: window_size_def)
  have a: "client history (measurement, field, start_dt, end_dt) = Inl err \<longrightarrow>
      get_count_for_field client history measurement field start_dt end_dt =
        (IntV 0,
         [Executing measurement field start_dt end_dt, ErrorExecuting measurement field err],
         history @ [(measurement, field, start_dt, end_dt)])"
    by (simp add: get_count_for_field_def)
  have b: "snd (snd (get_count_for_field client history measurement field start_dt end_dt)) =
     history @ [(measurement, field, start_dt, end_dt)]"
    by (rule get_count_history)
  note r = run_queries_rows[of client history start_dt end_dt measurements_fields]
  have d: "\<forall>k < length (queries_of start_dt end_dt measurements_fields).
      (\<exists>e. client (history @ take k (queries_of start_dt end_dt measurements_fields))
                  (queries_of start_dt end_dt measurements_fields ! k) = Inl e) \<longrightarrow>
      snd (fst (run_queries client history start_dt end_dt measurements_fields) ! k) = IntV 0"
  proof (intro allI impI)
    fix k
    assume k: "k < length (queries_of start_dt end_dt measurements_fields)"
      and "\<exists>e. client (history @ take k (queries_of start_dt end_dt measurements_fields))
                  (queries_of start_dt end_dt measurements_fields ! k) = Inl e"
    then obtain e where e: "client (history @ take k (queries_of start_dt end_dt measurements_fields))
                  (queries_of start_dt end_dt measurements_fields ! k) = Inl e"
      by blast
    have "fst (run_queries client history start_dt end_dt measurements_fields) ! k =
          result_row client (history @ take k (queries_of start_dt end_dt measurements_fields))
            (queries_of start_dt end_dt measurements_fields ! k)"
      using k by (simp add: r[THEN conjunct1])
    with result_row_failed[of client "history @ take k (queries_of start_dt end_dt measurements_fields)"
        "queries_of start_dt end_dt measurements_fields ! k" e, OF e]
    show "snd (fst (run_queries client history start_dt end_dt measurements_fields) ! k) = IntV 0"
      by simp
  qed
  have c: "(\<exists>win \<in> set (windows_from window_size start (n_windows window_size fin start)).
        \<exists>e. row_client win = Inl e) \<longrightarrow>
      (\<exists>e. get_frequency row_client start fin can_id_fields = Some (Inl e))"
  proof
    assume "\<exists>win \<in> set (windows_from window_size start (n_windows window_size fin start)).
        \<exists>e. row_client win = Inl e"
    from run_windows_fail[OF this, of gap_threshold 0 "[]" "[]"]
    obtain e where "run_windows row_client gap_threshold
        (windows_from window_size start (n_windows window_size fin start)) 0 [] [] = Inl e"
      by blast
    then have "get_frequency row_client start fin can_id_fields = Some (Inl e)"
      by (simp add: get_frequency_def window_loop_run[OF w])
    then show "\<exists>e. get_frequency row_client start fin can_id_fields = Some (Inl e)" by blast
  qed
  from a b r[THEN conjunct2] r[THEN conjunct1] d c show ?thesis by (intro conjI)
qed

text \<open>
  With the client that fails a first query and would answer a second, both fields of a
  measurement are counted 0 and the history holds each query once.
\<close>

theorem query_failure_handling_witness:
  "get_count_for_field flaky_count_client [] ''bms_battery_usage'' ''battery_current'' 0 3600000000000 =
     (IntV 0,
      [Executing ''bms_battery_usage'' ''battery_current'' 0 3600000000000,
       ErrorExecuting ''bms_battery_usage'' ''battery_current'' QueryFailure],
      [(''bms_battery_usage'', ''battery_current'', 0, 3600000000000)]) \<and>
   flaky_count_client [(''bms_battery_usage'', ''battery_current'', 0, 3600000000000)]
       (''bms_battery_usage'', ''battery_current'', 0, 3600000000000) =
     Inr [[(''time'', TimeV 0), (''count'', IntV 7)]] \<and>
   run_queries flaky_count_client [] 0 3600000000000
       [(''bms_battery_usage'', [''battery_current'', ''battery_voltage''])] =
     ([(''bms_battery_usage.count_battery_current'', IntV 0),
       (''bms_battery_usage.count_battery_voltage'', IntV 0)],
      [Processing ''bms_battery_usage'',
       Executing ''bms_battery_usage'' ''battery_current'' 0 3600000000000,
       ErrorExecuting ''bms_battery_usage'' ''battery_current'' QueryFailure,
       Executing ''bms_battery_usage'' ''battery_voltage'' 0 3600000000000,
       ErrorExecuting ''bms_battery_usage'' ''battery_voltage'' QueryFailure],
      [(''bms_battery_usage'', ''battery_current'', 0, 3600000000000),
       (''bms_battery_usage'', ''battery_voltage'', 0, 3600000000000)]) \<and>
   get_frequency failing_client 0 3600000000000 [(''CAN_ID_1'', [''battery_current''])] =
     Some (Inl QueryFailure)"
proof -
  have f: "flaky_count_client [] (''bms_battery_usage'', ''battery_current'', 0, 3600000000000) =
           Inl QueryFailure"
    by (simp add: flaky_count_client_def)
  have g: "\<exists>win \<in> set (windows_from window_size 0 (n_windows window_size 3600000000000 0)).
        \<exists>e. failing_client win = Inl e"
    by (simp add: failing_client_def windows_from_def n_windows_def window_size_def)
  note t = query_failure_handling[of flaky_count_client "[]" "''bms_battery_usage''"
      "''battery_current''" 0 3600000000000 QueryFailure
      "[(''bms_battery_usage'', [''battery_current'', ''battery_voltage''])]"
      0 3600000000000 failing_client "[(''CAN_ID_1'', [''battery_current''])]"]
  from t f have a: "get_count_for_field flaky_count_client [] ''bms_battery_usage'' ''battery_current'' 0 3600000000000 =
     (IntV 0,
      [Executing ''bms_battery_usage'' ''battery_current'' 0 3600000000000,
       ErrorExecuting ''bms_battery_usage'' ''battery_current'' QueryFailure],
      [] @ [(''bms_battery_usage'', ''battery_current'', 0, 3600000000000)])"
    by blast
  have b: "flaky_count_client [(''bms_battery_usage'', ''battery_current'', 0, 3600000000000)]
       (''bms_battery_usage'', ''battery_current'', 0, 3600000000000) =
     Inr [[(''time'', TimeV 0), (''count'', IntV 7)]]"
    by (simp add: flaky_count_client_def)
  have r: "run_queries flaky_count_client [] 0 3600000000000
       [(''bms_battery_usage'', [''battery_current'', ''battery_voltage''])] =
     ([(''bms_battery_usage.count_battery_current'', IntV 0),
       (''bms_battery_usage.count_battery_voltage'', IntV 0)],
      [Processing ''bms_battery_usage'',
       Executing ''bms_battery_usage'' ''battery_current'' 0 3600000000000,
       ErrorExecuting ''bms_battery_usage'' ''battery_current'' QueryFailure,
       Executing ''bms_battery_usage'' ''battery_voltage'' 0 3600000000000,
       ErrorExecuting ''bms_battery_usage'' ''battery_voltage'' QueryFailure],
      [(''bms_battery_usage'', ''battery_current'', 0, 3600000000000),
       (''bms_battery_usage'', ''battery_voltage'', 0, 3600000000000)])"
    by (simp add: get_count_for_field_def flaky_count_client_def case_prod_beta Let_def)
  from t g obtain e where "get_frequency failing_client 0 3600000000000
      [(''CAN_ID_1'', [''battery_current''])] = Some (Inl e)"
    by blast
  then have gf: "get_frequency failing_client 0 3600000000000 [(''CAN_ID_1'', [''battery_current''])] =
     Some (Inl QueryFailure)"
    by (cases e) (simp_all add: get_frequency_def window_loop.simps failing_client_def)
  from a b r gf show ?thesis by simp
qed

text \<open>A run of the windowed engine whose queries fail returns no result.\<close>

theorem window_failure_aborts:
  "get_frequency failing_client 0 3600000000000 [(''CAN_ID_1'', [''battery_current''])] = Some (Inl QueryFailure)"
  by (simp add: get_frequency_def window_loop.simps failing_client_def)

section \<open>The channel map loader\<close>

lemma str_split_no_sep: "sep \<notin> set s \<Longrightarrow> str_split sep s = [s]"
  by (induction s) auto

lemma str_split_nonempty: "str_split sep s \<noteq> []"
  by (induction s) (simp_all split: list.split)

lemma run_queries_skip_empty:
  "fst (run_queries client h s e mf) =
   fst (run_queries client h s e (filter (\<lambda>(m, flds). flds \<noteq> []) mf))"
proof (induction mf arbitrary: h)
  case Nil
  then show ?case by simp
next
  case (Cons a mf)
  obtain m flds where a: "a = (m, flds)" by (cases a)
  show ?case
    by (simp add: a case_prod_beta Let_def Cons.IH)
qed

text \<open>
  A line that begins with a NO-BREAK SPACE is an indented line: it adds a field to the
  current measurement.
\<close>

lemma load_line_nbsp:
  "load_line ([(''motor'', [''rpm''])], Some ''motor'') (CHR 0xA0 # ''torque'') =
     ([(''motor'', [''rpm'', ''torque''])], Some ''motor'')"
  by (simp add: load_line_def strip_def isspace_def)

text \<open>
  C10. In the loader, a line that is not blank, does not begin with whitespace and has no tab
  raises nothing and sets the entry of the measurement it names to the empty field list. In
  \<open>run_queries\<close>, a measurement with an empty field list adds no row to the results, sends
  no query and writes the message that no fields were found, so that the results are those
  of the measurements with fields. A blank line sets the current measurement to none, and
  the non-blank line after it, indented or not, begins a new block.
\<close>

theorem loader_line_without_tab:
  "(strip line \<noteq> [] \<and> \<not> isspace (hd line) \<and> CHR 0x09 \<notin> set (strip line) \<longrightarrow>
      load_line (measurements_fields, current_measurement) line =
        (AList.update (strip line) [] measurements_fields, Some (strip line)) \<and>
      map_of (fst (load_line (measurements_fields, current_measurement) line)) (strip line) = Some []) \<and>
   fst (run_queries client history start_dt end_dt ((measurement, []) # rest)) =
     fst (run_queries client history start_dt end_dt rest) \<and>
   snd (snd (run_queries client history start_dt end_dt ((measurement, []) # rest))) =
     snd (snd (run_queries client history start_dt end_dt rest)) \<and>
   take 2 (fst (snd (run_queries client history start_dt end_dt ((measurement, []) # rest)))) =
     [Processing measurement, NoFieldsFound] \<and>
   fst (run_queries client history start_dt end_dt rest) =
     fst (run_queries client history start_dt end_dt (filter (\<lambda>(m, flds). flds \<noteq> []) rest)) \<and>
   (strip blank = [] \<longrightarrow>
      load_line (measurements_fields, current_measurement) blank = (measurements_fields, None)) \<and>
   (strip blank = [] \<and> strip line \<noteq> [] \<longrightarrow>
      foldl load_line (measurements_fields, current_measurement) [blank, line] =
        (AList.update (hd (str_split CHR 0x09 (strip line)))
           (if 2 \<le> length (str_split CHR 0x09 (strip line))
            then [str_split CHR 0x09 (strip line) ! 1] else [])
           measurements_fields,
         Some (hd (str_split CHR 0x09 (strip line)))))"
proof -
  have one: "strip line \<noteq> [] \<and> \<not> isspace (hd line) \<and> CHR 0x09 \<notin> set (strip line) \<longrightarrow>
      load_line (measurements_fields, current_measurement) line =
        (AList.update (strip line) [] measurements_fields, Some (strip line)) \<and>
      map_of (fst (load_line (measurements_fields, current_measurement) line)) (strip line) = Some []"
    by (simp add: load_line_def Let_def str_split_no_sep update_conv')
  have two: "fst (run_queries client history start_dt end_dt ((measurement, []) # rest)) =
     fst (run_queries client history start_dt end_dt rest)"
    by (simp add: case_prod_beta Let_def)
  have two': "snd (snd (run_queries client history start_dt end_dt ((measurement, []) # rest))) =
     snd (snd (run_queries client history start_dt end_dt rest))"
    by (simp add: case_prod_beta Let_def)
  have three: "take 2 (fst (snd (run_queries client history start_dt end_dt ((measurement, []) # rest)))) =
     [Processing measurement, NoFieldsFound]"
    by (simp add: case_prod_beta Let_def)
  have four: "strip blank = [] \<longrightarrow>
      load_line (measurements_fields, current_measurement) blank = (measurements_fields, None)"
    by (simp add: load_line_def)
  have hd0: "str_split CHR 0x09 (strip line) ! 0 = hd (str_split CHR 0x09 (strip line))"
    using str_split_nonempty[of "CHR 0x09" "strip line"] by (simp add: hd_conv_nth)
  have five: "strip blank = [] \<and> strip line \<noteq> [] \<longrightarrow>
      foldl load_line (measurements_fields, current_measurement) [blank, line] =
        (AList.update (hd (str_split CHR 0x09 (strip line)))
           (if 2 \<le> length (str_split CHR 0x09 (strip line))
            then [str_split CHR 0x09 (strip line) ! 1] else [])
           measurements_fields,
         Some (hd (str_split CHR 0x09 (strip line))))"
    using hd0 by (simp add: load_line_def Let_def)
  from one two two' three run_queries_skip_empty four five show ?thesis by (intro conjI)
qed

text \<open>
  The file of three lines: the first line gives a measurement with no field, the blank line
  ends its block, and the indented third line begins the block of a second measurement; one
  query is sent and one row written, for the field of the second measurement.
\<close>

theorem loader_line_without_tab_witness:
  "load_line ([], None) (''bms_state'' @ [CHR 0x0A]) = ([(''bms_state'', [])], Some ''bms_state'') \<and>
   foldl load_line ([(''bms_state'', [])], Some ''bms_state'')
      [[CHR 0x0A], ''  motor'' @ [CHR 0x09] @ ''rpm'' @ [CHR 0x0A]] =
     ([(''bms_state'', []), (''motor'', [''rpm''])], Some ''motor'') \<and>
   load_measurements_fields channel_file = [(''bms_state'', []), (''motor'', [''rpm''])] \<and>
   run_queries seven_count_client [] 0 3600000000000 (load_measurements_fields channel_file) =
     ([(''motor.count_rpm'', IntV 7)],
      [Processing ''bms_state'', NoFieldsFound, Processing ''motor'',
       Executing ''motor'' ''rpm'' 0 3600000000000, CountFor ''motor'' ''rpm'' (IntV 7)],
      [(''motor'', ''rpm'', 0, 3600000000000)])"
proof -
  have h1: "strip (''bms_state'' @ [CHR 0x0A]) \<noteq> [] \<and> \<not> isspace (hd (''bms_state'' @ [CHR 0x0A])) \<and>
            CHR 0x09 \<notin> set (strip (''bms_state'' @ [CHR 0x0A]))"
    by (simp add: strip_def isspace_def)
  have a: "load_line ([], None) (''bms_state'' @ [CHR 0x0A]) = ([(''bms_state'', [])], Some ''bms_state'')"
    using loader_line_without_tab[where line = "''bms_state'' @ [CHR 0x0A]" and measurements_fields = "[]"
        and current_measurement = None and client = seven_count_client and history = "[]"
        and start_dt = 0 and end_dt = 0
        and measurement = "[]" and rest = "[]" and blank = "[]"] h1
    by (simp add: strip_def isspace_def)
  have b: "foldl load_line ([(''bms_state'', [])], Some ''bms_state'')
      [[CHR 0x0A], ''  motor'' @ [CHR 0x09] @ ''rpm'' @ [CHR 0x0A]] =
     ([(''bms_state'', []), (''motor'', [''rpm''])], Some ''motor'')"
    using loader_line_without_tab[where line = "''  motor'' @ [CHR 0x09] @ ''rpm'' @ [CHR 0x0A]"
        and measurements_fields = "[(''bms_state'', [])]" and current_measurement = "Some ''bms_state''"
        and client = seven_count_client and history = "[]" and start_dt = 0 and end_dt = 0
        and measurement = "[]" and rest = "[]" and blank = "[CHR 0x0A]"]
    by (auto simp: strip_def isspace_def)
  have c: "load_measurements_fields channel_file = [(''bms_state'', []), (''motor'', [''rpm''])]"
    using a b by (simp add: load_measurements_fields_def channel_file_def)
  have d: "run_queries seven_count_client [] 0 3600000000000 [(''bms_state'', []), (''motor'', [''rpm''])] =
     ([(''motor.count_rpm'', IntV 7)],
      [Processing ''bms_state'', NoFieldsFound, Processing ''motor'',
       Executing ''motor'' ''rpm'' 0 3600000000000, CountFor ''motor'' ''rpm'' (IntV 7)],
      [(''motor'', ''rpm'', 0, 3600000000000)])"
    by (simp add: get_count_for_field_def seven_count_client_def)
  from a b c d show ?thesis by simp
qed

section \<open>Windowed counts and the aggregate count\<close>

lemma in_window_split:
  "a \<le> b \<Longrightarrow> b \<le> c \<Longrightarrow>
   mset (in_window rows (a, b)) + mset (in_window rows (b, c)) = mset (in_window rows (a, c))"
  by (induction rows) (auto simp: in_window_def)

lemma influx_select_uncapped:
  assumes "length (in_window rows win) \<le> batch_size"
  shows "\<exists>d. influx_select rows batch_size win = Inr d \<and> mset d = mset (in_window rows win)"
  using assms by (simp add: influx_select_def)

lemma fetched_nonempty: "[] \<notin> set (fetched client ws)"
  by (induction ws) (auto split: sum.splits)

lemma fetched_select_mset:
  assumes "0 \<le> w"
    and "\<forall>win \<in> set (windows_from w cur n). length (in_window rows win) \<le> batch_size"
  shows "mset (concat (fetched (influx_select rows batch_size) (windows_from w cur n))) =
         mset (in_window rows (cur, cur + int n * w))"
  using assms(2)
proof (induction n arbitrary: cur)
  case 0
  show ?case by (simp add: windows_from_def in_window_def)
next
  case (Suc n)
  have W: "windows_from w cur (Suc n) = (cur, cur + w) # windows_from w (cur + w) n"
    by (rule windows_from_Suc)
  from Suc.prems have cap1: "length (in_window rows (cur, cur + w)) \<le> batch_size"
    and cap2: "\<forall>win \<in> set (windows_from w (cur + w) n). length (in_window rows win) \<le> batch_size"
    by (simp_all add: W)
  from influx_select_uncapped[OF cap1] obtain d where
    d: "influx_select rows batch_size (cur, cur + w) = Inr d" "mset d = mset (in_window rows (cur, cur + w))"
    by blast
  have "mset (concat (fetched (influx_select rows batch_size) (windows_from w cur (Suc n)))) =
        mset d + mset (concat (fetched (influx_select rows batch_size) (windows_from w (cur + w) n)))"
    by (simp add: W d(1))
  also have "\<dots> = mset (in_window rows (cur, cur + w)) + mset (in_window rows (cur + w, cur + w + int n * w))"
    by (simp add: d(2) Suc.IH[OF cap2])
  also have "\<dots> = mset (in_window rows (cur, cur + w + int n * w))"
    using assms(1) by (intro in_window_split) simp_all
  also have "cur + w + int n * w = cur + int (Suc n) * w"
    by (simp add: algebra_simps)
  finally show ?case .
qed

lemma count_fields_ok:
  "\<forall>f \<in> set flds. column_count all_data f = Inr (g f) \<Longrightarrow>
   count_fields all_data flds = Inr (map (\<lambda>f. (f, g f)) flds)"
  by (induction flds) simp_all

lemma count_channels_ok:
  "\<forall>(can_id, flds) \<in> set cf. \<forall>f \<in> set flds. column_count all_data f = Inr (g f) \<Longrightarrow>
   count_channels all_data cf = Inr (map (\<lambda>(can_id, flds). (can_id, map (\<lambda>f. (f, g f)) flds)) cf)"
proof (induction cf)
  case Nil
  then show ?case by simp
next
  case (Cons a cf)
  obtain c flds where a: "a = (c, flds)" by (cases a)
  from Cons.prems have "\<forall>f \<in> set flds. column_count all_data f = Inr (g f)" by (simp add: a)
  from count_fields_ok[OF this] Cons show ?case by (simp add: a)
qed

lemma column_count_mset:
  assumes "mset (concat all_data) = mset rows"
    and "field \<noteq> ''time''" "field \<noteq> ''epoch''" "field \<noteq> ''time_diff''"
    and "\<exists>r \<in> set rows. field_values r field \<noteq> None"
  shows "column_count all_data field = Inr (length (filter (non_null field) rows))"
proof -
  have s: "set (concat all_data) = set rows" using assms(1) by (rule mset_eq_setD)
  have "mset (filter (non_null field) (concat all_data)) = mset (filter (non_null field) rows)"
    using assms(1) by simp
  then have l: "length (filter (non_null field) (concat all_data)) = length (filter (non_null field) rows)"
    by (rule mset_eq_length)
  from assms(5) s have "\<exists>r \<in> set (concat all_data). field_values r field \<noteq> None" by simp
  then show ?thesis
    using assms(2,3,4) l by (simp add: column_count_def Let_def)
qed

lemma get_count_for_field_influx:
  "fst (get_count_for_field (influx_count rows) history measurement field start_dt end_dt) =
   IntV (int (length (filter (non_null field) (in_window rows (start_dt, end_dt)))))"
  by (simp add: get_count_for_field_def influx_count_def Let_def)

lemma n_windows_exact:
  assumes "start \<le> fin" and "(fin - start) mod window_size = 0"
  shows "start + int (n_windows window_size fin start) * window_size = fin"
proof (cases "start < fin")
  case True
  have w: "(0::int) < window_size" by (simp add: window_size_def)
  from n_windows_bounds(3)[OF w True] assms(2) show ?thesis by simp
next
  case False
  have w: "(0::int) < window_size" by (simp add: window_size_def)
  from False assms(1) have "start = fin" by simp
  with n_windows_done[OF w False] show ?thesis by simp
qed

text \<open>
  C2 (as amended). Over a store, suppose that the length of the range is a multiple of the
  window size, so that the windows of the run cover the range exactly; that no window of the
  run holds more rows than the row limit; and that every field of the channel map is none of
  the columns \<^verbatim>\<open>time\<close>, \<^verbatim>\<open>epoch\<close> and \<^verbatim>\<open>time_diff\<close>, and is a key of some row of
  the range unless the range has no row. Then \<open>get_frequency\<close> returns a table, and the
  count of each field in it is the value that \<open>get_count_for_field\<close> returns for the whole
  range, whatever queries the store has received before.
\<close>

theorem counts_invariant_under_windowing:
  assumes rng: "start \<le> fin" "(fin - start) mod window_size = 0"
    and cap: "\<forall>win \<in> set (windows_from window_size start (n_windows window_size fin start)).
                length (in_window rows win) \<le> batch_size"
    and cols: "\<forall>(can_id, flds) \<in> set can_id_fields. \<forall>field \<in> set flds.
                field \<noteq> ''time'' \<and> field \<noteq> ''epoch'' \<and> field \<noteq> ''time_diff'' \<and>
                (in_window rows (start, fin) = [] \<or>
                 (\<exists>r \<in> set (in_window rows (start, fin)). field_values r field \<noteq> None))"
  shows "\<exists>table effective_time.
           get_frequency (influx_select rows batch_size) start fin can_id_fields =
             Some (Inr (table, effective_time)) \<and>
           map (\<lambda>(can_id, counts). (can_id, map (\<lambda>(field, n). (field, IntV (int n))) counts)) table =
           map (\<lambda>(can_id, flds).
                  (can_id, map (\<lambda>field. (field,
                     fst (get_count_for_field (influx_count rows) history measurement field start fin))) flds))
               can_id_fields"
proof -
  define W where "W = windows_from window_size start (n_windows window_size fin start)"
  define client where "client = influx_select rows batch_size"
  define A where "A = fetched client W"
  define R where "R = in_window rows (start, fin)"
  define g where "g = (\<lambda>field. length (filter (non_null field) R))"
  have w: "(0::int) < window_size" by (simp add: window_size_def)
  have ok: "\<forall>x \<in> set W. \<exists>d. client x = Inr d" by (simp add: client_def influx_select_def)
  have loop: "window_loop client window_size gap_threshold fin start 0 [] [] =
        Some (Inr (0 + sum_list (map (\<lambda>b. detect gap_threshold b 0) A), [] @ A, [] @ W))"
    unfolding A_def W_def
    using run_windows_ok[OF ok[unfolded W_def], of gap_threshold 0 "[]" "[]"]
    by (simp add: window_loop_run[OF w])
  have "mset (concat A) = mset (in_window rows (start, start + int (n_windows window_size fin start) * window_size))"
    unfolding A_def W_def client_def
    using w cap by (intro fetched_select_mset) simp_all
  then have AR: "mset (concat A) = mset R"
    by (simp add: R_def n_windows_exact[OF rng])
  have rhs: "fst (get_count_for_field (influx_count rows) history measurement field start fin) = IntV (int (g field))"
    for field
    by (simp add: get_count_for_field_influx g_def R_def)
  show ?thesis
  proof (cases "R = []")
    case True
    with AR have "concat A = []" by simp
    moreover have "[] \<notin> set A" unfolding A_def by (rule fetched_nonempty)
    ultimately have "A = []" by (cases A) auto
    then have gf: "get_frequency client start fin can_id_fields =
        Some (Inr (frequency_dict can_id_fields, fin - start))"
      by (simp add: get_frequency_def loop)
    have "g field = 0" for field by (simp add: g_def True)
    then have "map (\<lambda>(can_id, counts). (can_id, map (\<lambda>(field, n). (field, IntV (int n))) counts))
            (frequency_dict can_id_fields) =
          map (\<lambda>(can_id, flds).
                  (can_id, map (\<lambda>field. (field,
                     fst (get_count_for_field (influx_count rows) history measurement field start fin))) flds))
               can_id_fields"
      by (simp add: frequency_dict_def rhs case_prod_beta)
    with gf show ?thesis unfolding client_def by blast
  next
    case False
    have "concat A \<noteq> []"
    proof
      assume "concat A = []"
      with AR have "mset R = {#}" by simp
      with False show False by simp
    qed
    then have Ane: "A \<noteq> []" by auto
    have "\<forall>(can_id, flds) \<in> set can_id_fields. \<forall>f \<in> set flds. column_count A f = Inr (g f)"
    proof (intro ballI, clarify)
      fix can_id flds f
      assume "(can_id, flds) \<in> set can_id_fields" and "f \<in> set flds"
      with cols False have "f \<noteq> ''time''" "f \<noteq> ''epoch''" "f \<noteq> ''time_diff''"
        "\<exists>r \<in> set R. field_values r f \<noteq> None"
        unfolding R_def by blast+
      from column_count_mset[OF AR this] show "column_count A f = Inr (g f)" by (simp add: g_def)
    qed
    from count_channels_ok[OF this]
    have cc: "count_channels A can_id_fields =
              Inr (map (\<lambda>(can_id, flds). (can_id, map (\<lambda>f. (f, g f)) flds)) can_id_fields)" .
    have gf: "get_frequency client start fin can_id_fields =
        Some (Inr (map (\<lambda>(can_id, flds). (can_id, map (\<lambda>f. (f, g f)) flds)) can_id_fields,
                   fin - start - sum_list (map (\<lambda>b. detect gap_threshold b 0) A)))"
      using Ane by (simp add: get_frequency_def loop cc)
    have "map (\<lambda>(can_id, counts). (can_id, map (\<lambda>(field, n). (field, IntV (int n))) counts))
            (map (\<lambda>(can_id, flds). (can_id, map (\<lambda>f. (f, g f)) flds)) can_id_fields) =
          map (\<lambda>(can_id, flds).
                  (can_id, map (\<lambda>field. (field,
                     fst (get_count_for_field (influx_count rows) history measurement field start fin))) flds))
               can_id_fields"
      by (simp add: rhs case_prod_beta)
    with gf show ?thesis unfolding client_def by blast
  qed
qed

lemma two_values_window:
  "in_window two_values (0, 1800000000000) = two_values"
  by (simp add: in_window_def two_values_def)

lemma two_values_loop:
  "0 < batch_size \<Longrightarrow>
   window_loop (influx_select two_values batch_size) window_size gap_threshold 1800000000000 0 0 [] [] =
     Some (Inr (0, [take batch_size two_values], [(0, 1800000000000)]))"
  apply (subst window_loop.simps)
  apply (simp add: window_size_def influx_select_def two_values_window)
  apply (subst window_loop.simps)
  apply (simp add: two_values_def detect_def gaps_def epoch_def gap_threshold_def take_Cons')
  done

lemma two_window_values_windows:
  "in_window two_window_values (0, 1800000000000) = take 2 two_window_values"
  "in_window two_window_values (1800000000000, 3600000000000) = drop 2 two_window_values"
  "in_window two_window_values (0, 3600000000000) = two_window_values"
  by (simp_all add: in_window_def two_window_values_def)

lemma two_window_values_loop:
  "window_loop (influx_select two_window_values 100000) window_size gap_threshold
     3600000000000 0 0 [] [] =
   Some (Inr (0, [take 2 two_window_values, drop 2 two_window_values],
              [(0, 1800000000000), (1800000000000, 3600000000000)]))"
  apply (subst window_loop.simps)
  apply (simp add: window_size_def influx_select_def two_window_values_windows)
  apply (subst window_loop.simps)
  apply (simp add: influx_select_def two_window_values_windows)
  apply (subst window_loop.simps)
  apply (simp add: two_window_values_def detect_def gaps_def epoch_def gap_threshold_def)
  done

text \<open>
  A range of one hour over the store of four rows: two windows, each with a batch of two
  rows; the windowed count of the field over the two batches and the aggregate count over
  the range are both 3.
\<close>

theorem counts_invariant_under_windowing_witness:
  "window_loop (influx_select two_window_values 100000) window_size gap_threshold
     3600000000000 0 0 [] [] =
   Some (Inr (0, [take 2 two_window_values, drop 2 two_window_values],
              [(0, 1800000000000), (1800000000000, 3600000000000)])) \<and>
   get_frequency (influx_select two_window_values 100000) 0 3600000000000
       [(''CAN_ID_1'', [''battery_current''])] =
     Some (Inr ([(''CAN_ID_1'', [(''battery_current'', 3)])], 3600000000000)) \<and>
   fst (get_count_for_field (influx_count two_window_values) []
          ''bms_battery_usage'' ''battery_current'' 0 3600000000000) = IntV 3"
proof -
  have W: "windows_from window_size 0 (n_windows window_size 3600000000000 0) =
           [(0, 1800000000000), (1800000000000, 3600000000000)]"
    by (simp add: windows_from_def n_windows_def window_size_def numeral_2_eq_2)
  have h1: "(0::int) \<le> 3600000000000" by simp
  have h2: "(3600000000000 - 0) mod window_size = 0" by (simp add: window_size_def)
  have h3: "\<forall>win \<in> set (windows_from window_size 0 (n_windows window_size 3600000000000 0)).
              length (in_window two_window_values win) \<le> 100000"
    by (simp add: W two_window_values_windows) (simp add: two_window_values_def)
  have h4: "\<forall>(can_id, flds) \<in> set [(''CAN_ID_1'', [''battery_current''])]. \<forall>field \<in> set flds.
                field \<noteq> ''time'' \<and> field \<noteq> ''epoch'' \<and> field \<noteq> ''time_diff'' \<and>
                (in_window two_window_values (0, 3600000000000) = [] \<or>
                 (\<exists>r \<in> set (in_window two_window_values (0, 3600000000000)).
                    field_values r field \<noteq> None))"
    by (simp add: two_window_values_windows) (simp add: two_window_values_def)
  have gf: "get_frequency (influx_select two_window_values 100000) 0 3600000000000
       [(''CAN_ID_1'', [''battery_current''])] =
     Some (Inr ([(''CAN_ID_1'', [(''battery_current'', 3)])], 3600000000000))"
    by (simp add: get_frequency_def two_window_values_loop)
       (simp add: two_window_values_def column_count_def non_null_def)
  from counts_invariant_under_windowing[OF h1 h2 h3 h4, of "[]" "''bms_battery_usage''"] gf
  have "fst (get_count_for_field (influx_count two_window_values) []
          ''bms_battery_usage'' ''battery_current'' 0 3600000000000) = IntV 3"
    by simp
  with two_window_values_loop gf show ?thesis by simp
qed

text \<open>
  The same store and range with a row limit of 1: the one window holds two rows, the windowed
  count of the field is 1 and the aggregate count is 2.
\<close>

theorem row_cap_drops_counts:
  "get_frequency (influx_select two_values 1) 0 1800000000000 [(''CAN_ID_1'', [''battery_current''])] =
     Some (Inr ([(''CAN_ID_1'', [(''battery_current'', 1)])], 1800000000000)) \<and>
   fst (get_count_for_field (influx_count two_values) [] ''bms_battery_usage'' ''battery_current''
          0 1800000000000) =
     IntV 2"
proof -
  have gf: "get_frequency (influx_select two_values 1) 0 1800000000000 [(''CAN_ID_1'', [''battery_current''])] =
     Some (Inr ([(''CAN_ID_1'', [(''battery_current'', 1)])], 1800000000000))"
    by (simp add: get_frequency_def two_values_loop) (simp add: two_values_def column_count_def non_null_def)
  have "fst (get_count_for_field (influx_count two_values) [] ''bms_battery_usage'' ''battery_current''
          0 1800000000000) =
     IntV 2"
    by (simp add: get_count_for_field_influx two_values_window) (simp add: two_values_def non_null_def)
  with gf show ?thesis by simp
qed

end
